theory Spec2Isabelle
  imports Complex_Main "HOL-Library.Word" "HOL-Library.Log_Nat"
begin

text \<open>
  A model of \<open>src/index.ts\<close> of the X-Ray exporter: a process that polls AWS X-Ray for
  the traces of the last interval, and sends every segment document it is given to an
  OpenTelemetry collector as one UDP datagram. The model has the module's configuration,
  \<open>fetchTraces\<close> with its two paginated reads and the generator \<open>batchArray\<close>,
  \<open>sendTracesToOtelUdp\<close>, and the loop of \<open>main\<close>; of the runtime it has
  \<open>JSON.parse\<close>, \<open>Buffer.from\<close> and the arithmetic of \<open>Date\<close>. The X-Ray
  service and the clock are inputs.
\<close>

section \<open>The JavaScript values the exporter works on\<close>

text \<open>
  A JavaScript string is a sequence of UTF-16 code units; a \<open>Buffer\<close> is a sequence of
  bytes. The literals of the source are written as Isabelle strings and turned into code
  units by \<open>js\<close>.
\<close>

type_synonym js_string = "16 word list"
type_synonym buffer = "8 word list"

definition js :: "string \<Rightarrow> js_string" where
  "js s = map of_char s"

text \<open>The values that \<open>throw\<close> carries in this program.\<close>

datatype js_error =
    SyntaxError
  | TypeError
  | Error js_string
  | ServiceException js_string

subsection \<open>\<open>Buffer.from(string)\<close>: the UTF-8 encoding of a string\<close>

text \<open>
  \<open>Buffer.from(s)\<close> encodes \<open>s\<close> as UTF-8: a lead surrogate followed by a trail
  surrogate is one code point of four bytes, a surrogate on its own is replaced by
  U+FFFD (\<open>EF BF BD\<close>), every other code unit is a code point of one to three bytes.
\<close>

definition utf8_code_point :: "nat \<Rightarrow> buffer" where
  "utf8_code_point cp =
     (if cp < 0x80 then [of_nat cp]
      else if cp < 0x800 then [of_nat (0xC0 + cp div 64), of_nat (0x80 + cp mod 64)]
      else if cp < 0x10000 then
        [of_nat (0xE0 + cp div 4096), of_nat (0x80 + cp div 64 mod 64), of_nat (0x80 + cp mod 64)]
      else
        [of_nat (0xF0 + cp div 262144), of_nat (0x80 + cp div 4096 mod 64),
         of_nat (0x80 + cp div 64 mod 64), of_nat (0x80 + cp mod 64)])"

definition is_lead_surrogate :: "16 word \<Rightarrow> bool" where
  "is_lead_surrogate u \<longleftrightarrow> 0xD800 \<le> u \<and> u \<le> 0xDBFF"

definition is_trail_surrogate :: "16 word \<Rightarrow> bool" where
  "is_trail_surrogate u \<longleftrightarrow> 0xDC00 \<le> u \<and> u \<le> 0xDFFF"

fun Buffer_from :: "js_string \<Rightarrow> buffer" where
  "Buffer_from [] = []"
| "Buffer_from [u] =
     (if is_lead_surrogate u \<or> is_trail_surrogate u then [0xEF, 0xBF, 0xBD]
      else utf8_code_point (unat u))"
| "Buffer_from (u # v # rest) =
     (if is_lead_surrogate u \<and> is_trail_surrogate v then
        utf8_code_point (0x10000 + (unat u - 0xD800) * 1024 + (unat v - 0xDC00)) @ Buffer_from rest
      else if is_lead_surrogate u \<or> is_trail_surrogate u then
        [0xEF, 0xBF, 0xBD] @ Buffer_from (v # rest)
      else utf8_code_point (unat u) @ Buffer_from (v # rest))"

subsection \<open>\<open>JSON.parse\<close>\<close>

text \<open>
  The value of a JSON text. A number keeps the exact decimal value of its literal; the
  JavaScript Number is that value rounded to a double, and the only thing this program
  asks of a number is whether it is zero. The members of an object are kept in the order
  of the text, duplicates included.
\<close>

datatype json =
    JNull
  | JBool bool
  | JNumber rat
  | JString js_string
  | JArray "json list"
  | JObject "(js_string \<times> json) list"

definition is_ws :: "16 word \<Rightarrow> bool" where
  "is_ws c \<longleftrightarrow> c = 0x20 \<or> c = 0x09 \<or> c = 0x0A \<or> c = 0x0D"

definition skip_ws :: "js_string \<Rightarrow> js_string" where
  "skip_ws s = dropWhile is_ws s"

definition is_digit :: "16 word \<Rightarrow> bool" where
  "is_digit c \<longleftrightarrow> 0x30 \<le> c \<and> c \<le> 0x39"

definition digits_value :: "js_string \<Rightarrow> nat" where
  "digits_value ds = foldl (\<lambda>a c. 10 * a + (unat c - 0x30)) 0 ds"

definition hex_value :: "16 word \<Rightarrow> nat option" where
  "hex_value c =
     (if is_digit c then Some (unat c - 0x30)
      else if 0x41 \<le> c \<and> c \<le> 0x46 then Some (unat c - 0x41 + 10)
      else if 0x61 \<le> c \<and> c \<le> 0x66 then Some (unat c - 0x61 + 10)
      else None)"

text \<open>The one-character escapes: \<open>\" \\ \/ \b \f \n \r \t\<close>.\<close>

definition escape_char :: "16 word \<Rightarrow> 16 word option" where
  "escape_char e =
     (if e = 0x22 \<or> e = 0x5C \<or> e = 0x2F then Some e
      else if e = 0x62 then Some 0x08
      else if e = 0x66 then Some 0x0C
      else if e = 0x6E then Some 0x0A
      else if e = 0x72 then Some 0x0D
      else if e = 0x74 then Some 0x09
      else None)"

text \<open>
  The characters of a string literal, after its opening quote, up to and including the
  closing quote: the decoded string and the rest of the text.
\<close>

fun parse_chars :: "js_string \<Rightarrow> (js_string \<times> js_string) option" where
  "parse_chars [] = None"
| "parse_chars (c # cs) =
     (if c = 0x22 then Some ([], cs)
      else if c = 0x5C then
        (case cs of
           [] \<Rightarrow> None
         | e # cs' \<Rightarrow>
             if e = 0x75 then
               (case cs' of
                  h1 # h2 # h3 # h4 # cs'' \<Rightarrow>
                    (case (hex_value h1, hex_value h2, hex_value h3, hex_value h4) of
                       (Some a, Some b, Some c', Some d) \<Rightarrow>
                         (case parse_chars cs'' of
                            None \<Rightarrow> None
                          | Some (str, r) \<Rightarrow> Some (of_nat (((a * 16 + b) * 16 + c') * 16 + d) # str, r))
                     | _ \<Rightarrow> None)
                | _ \<Rightarrow> None)
             else
               (case escape_char e of
                  None \<Rightarrow> None
                | Some x \<Rightarrow>
                    (case parse_chars cs' of
                       None \<Rightarrow> None
                     | Some (str, r) \<Rightarrow> Some (x # str, r))))
      else if c < 0x20 then None
      else
        (case parse_chars cs of
           None \<Rightarrow> None
         | Some (str, r) \<Rightarrow> Some (c # str, r)))"

text \<open>
  A number literal: \<open>-? (0 | [1-9][0-9]*) (. [0-9]+)? ([eE] [+-]? [0-9]+)?\<close>. A
  \<open>.\<close> or an exponent mark that no digit follows cannot start another token, so the
  text is rejected there.
\<close>

definition parse_frac :: "js_string \<Rightarrow> (js_string \<times> js_string) option" where
  "parse_frac s =
     (case s of
        [] \<Rightarrow> Some ([], s)
      | c # cs \<Rightarrow>
          if c = 0x2E then
            (let ds = takeWhile is_digit cs
             in if ds = [] then None else Some (ds, drop (length ds) cs))
          else Some ([], s))"

definition parse_exp_digits :: "bool \<Rightarrow> js_string \<Rightarrow> (int \<times> js_string) option" where
  "parse_exp_digits neg s =
     (let ds = takeWhile is_digit s
      in if ds = [] then None
         else Some ((if neg then - int (digits_value ds) else int (digits_value ds)),
                    drop (length ds) s))"

definition parse_exp :: "js_string \<Rightarrow> (int \<times> js_string) option" where
  "parse_exp s =
     (case s of
        [] \<Rightarrow> Some (0, s)
      | c # cs \<Rightarrow>
          if c = 0x65 \<or> c = 0x45 then
            (case cs of
               [] \<Rightarrow> None
             | d # ds \<Rightarrow>
                 if d = 0x2B then parse_exp_digits False ds
                 else if d = 0x2D then parse_exp_digits True ds
                 else parse_exp_digits False cs)
          else Some (0, s))"

definition decimal_value :: "bool \<Rightarrow> js_string \<Rightarrow> int \<Rightarrow> rat" where
  "decimal_value neg ds e =
     (if neg then - 1 else 1) * of_nat (digits_value ds)
       * (if 0 \<le> e then 10 ^ nat e else 1 / 10 ^ nat (- e))"

definition parse_number :: "js_string \<Rightarrow> (rat \<times> js_string) option" where
  "parse_number s =
     (let neg = (case s of [] \<Rightarrow> False | c # cs \<Rightarrow> c = 0x2D);
          s1 = (if neg then tl s else s);
          ip = (case s1 of [] \<Rightarrow> [] | c # cs \<Rightarrow> if c = 0x30 then [c] else takeWhile is_digit s1)
      in if ip = [] then None
         else
           (case parse_frac (drop (length ip) s1) of
              None \<Rightarrow> None
            | Some (fp, s3) \<Rightarrow>
                (case parse_exp s3 of
                   None \<Rightarrow> None
                 | Some (ex, s4) \<Rightarrow>
                     Some (decimal_value neg (ip @ fp) (ex - int (length fp)), s4))))"

text \<open>
  The recursive descent over values. Every recursive call takes one unit of fuel;
  \<open>JSON_parse\<close> supplies more than the text can use (\<open>parse_value_fuel\<close> below),
  so \<open>NoFuel\<close> never reaches it.
\<close>

datatype 'a parsed = Ok 'a js_string | Bad | NoFuel

fun parse_value :: "nat \<Rightarrow> js_string \<Rightarrow> json parsed"
  and parse_elements :: "nat \<Rightarrow> js_string \<Rightarrow> json list parsed"
  and parse_members :: "nat \<Rightarrow> js_string \<Rightarrow> (js_string \<times> json) list parsed" where
  "parse_value 0 s = NoFuel"
| "parse_value (Suc n) s =
     (case skip_ws s of
        [] \<Rightarrow> Bad
      | c # cs \<Rightarrow>
          if c = 0x7B then
            (case skip_ws cs of
               [] \<Rightarrow> Bad
             | d # ds \<Rightarrow>
                 if d = 0x7D then Ok (JObject []) ds
                 else
                   (case parse_members n (d # ds) of
                      Ok ms r \<Rightarrow> Ok (JObject ms) r
                    | Bad \<Rightarrow> Bad
                    | NoFuel \<Rightarrow> NoFuel))
          else if c = 0x5B then
            (case skip_ws cs of
               [] \<Rightarrow> Bad
             | d # ds \<Rightarrow>
                 if d = 0x5D then Ok (JArray []) ds
                 else
                   (case parse_elements n (d # ds) of
                      Ok vs r \<Rightarrow> Ok (JArray vs) r
                    | Bad \<Rightarrow> Bad
                    | NoFuel \<Rightarrow> NoFuel))
          else if c = 0x22 then
            (case parse_chars cs of
               None \<Rightarrow> Bad
             | Some (str, r) \<Rightarrow> Ok (JString str) r)
          else if take 4 (c # cs) = js ''true'' then Ok (JBool True) (drop 3 cs)
          else if take 5 (c # cs) = js ''false'' then Ok (JBool False) (drop 4 cs)
          else if take 4 (c # cs) = js ''null'' then Ok JNull (drop 3 cs)
          else
            (case parse_number (c # cs) of
               None \<Rightarrow> Bad
             | Some (x, r) \<Rightarrow> Ok (JNumber x) r))"
| "parse_elements 0 s = NoFuel"
| "parse_elements (Suc n) s =
     (case parse_value n s of
        Ok v r \<Rightarrow>
          (case skip_ws r of
             [] \<Rightarrow> Bad
           | c # cs \<Rightarrow>
               if c = 0x5D then Ok [v] cs
               else if c = 0x2C then
                 (case parse_elements n cs of
                    Ok vs r' \<Rightarrow> Ok (v # vs) r'
                  | Bad \<Rightarrow> Bad
                  | NoFuel \<Rightarrow> NoFuel)
               else Bad)
      | Bad \<Rightarrow> Bad
      | NoFuel \<Rightarrow> NoFuel)"
| "parse_members 0 s = NoFuel"
| "parse_members (Suc n) s =
     (case skip_ws s of
        [] \<Rightarrow> Bad
      | q # cs \<Rightarrow>
          if q \<noteq> 0x22 then Bad
          else
            (case parse_chars cs of
               None \<Rightarrow> Bad
             | Some (key, r) \<Rightarrow>
                 (case skip_ws r of
                    [] \<Rightarrow> Bad
                  | colon # r1 \<Rightarrow>
                      if colon \<noteq> 0x3A then Bad
                      else
                        (case parse_value n r1 of
                           Ok v r2 \<Rightarrow>
                             (case skip_ws r2 of
                                [] \<Rightarrow> Bad
                              | c # r3 \<Rightarrow>
                                  if c = 0x7D then Ok [(key, v)] r3
                                  else if c = 0x2C then
                                    (case parse_members n r3 of
                                       Ok ms r4 \<Rightarrow> Ok ((key, v) # ms) r4
                                     | Bad \<Rightarrow> Bad
                                     | NoFuel \<Rightarrow> NoFuel)
                                  else Bad)
                         | Bad \<Rightarrow> Bad
                         | NoFuel \<Rightarrow> NoFuel))))"

text \<open>
  \<open>JSON.parse(text)\<close>: the value of the text, or a \<open>SyntaxError\<close> when the text is
  not one JSON value between optional white space.
\<close>

definition JSON_parse :: "js_string \<Rightarrow> js_error + json" where
  "JSON_parse text =
     (case parse_value (2 * length text + 2) text of
        Ok v r \<Rightarrow> if skip_ws r = [] then Inr v else Inl SyntaxError
      | Bad \<Rightarrow> Inl SyntaxError
      | NoFuel \<Rightarrow> Inl SyntaxError)"

subsection \<open>Property reads and truthiness\<close>

text \<open>
  \<open>(JSON.parse(trace.Document) as XRayDocument).inferred\<close>: the read throws a
  \<open>TypeError\<close> on \<open>null\<close>; an object gives its member \<open>inferred\<close> (the last one
  when the text repeats the name) or \<open>undefined\<close>, here \<open>None\<close>; a boolean, a number,
  a string and an array have no such property.
\<close>

fun get_inferred :: "json \<Rightarrow> js_error + json option" where
  "get_inferred JNull = Inl TypeError"
| "get_inferred (JObject ms) = Inr (map_of (rev ms) (js ''inferred''))"
| "get_inferred (JBool b) = Inr None"
| "get_inferred (JNumber x) = Inr None"
| "get_inferred (JString str) = Inr None"
| "get_inferred (JArray vs) = Inr None"

text \<open>
  A decimal value becomes the Number zero when it is zero or rounds to zero, which is at
  or below half of the least positive double, \<open>2 ^ -1074\<close>.
\<close>

definition rounds_to_zero :: "rat \<Rightarrow> bool" where
  "rounds_to_zero x \<longleftrightarrow> \<bar>x\<bar> \<le> 1 / 2 ^ 1075"

fun ToBoolean :: "json option \<Rightarrow> bool" where
  "ToBoolean None = False"
| "ToBoolean (Some JNull) = False"
| "ToBoolean (Some (JBool b)) = b"
| "ToBoolean (Some (JNumber x)) = (\<not> rounds_to_zero x)"
| "ToBoolean (Some (JString str)) = (str \<noteq> [])"
| "ToBoolean (Some (JArray vs)) = True"
| "ToBoolean (Some (JObject ms)) = True"

subsection \<open>Numbers and dates\<close>

text \<open>
  A Number is \<open>NaN\<close>, an infinity, or a finite double, kept as the rational it stands
  for (the sign of zero plays no part in this program). Arithmetic gives the exact result
  rounded to the nearest double, ties to the even significand: 53 bits, exponents from
  -1022 to 1023, and an infinity from \<open>2 ^ 1024\<close> on.
\<close>

datatype number = NaN | PosInfinity | NegInfinity | Finite rat

definition two_to :: "int \<Rightarrow> rat" where
  "two_to k = (if 0 \<le> k then 2 ^ nat k else 1 / 2 ^ nat (- k))"

text \<open>For \<open>0 < x\<close>, the exponent \<open>e\<close> with \<open>2 ^ e \<le> x < 2 ^ (e + 1)\<close>.\<close>

definition floor_log2 :: "rat \<Rightarrow> int" where
  "floor_log2 x = (if 1 \<le> x then bitlen \<lfloor>x\<rfloor> - 1 else - bitlen (\<lceil>1 / x\<rceil> - 1))"

definition round_half_even :: "rat \<Rightarrow> int" where
  "round_half_even t =
     (let f = \<lfloor>t\<rfloor>; d = t - of_int f
      in if d < 1 / 2 then f
         else if 1 / 2 < d then f + 1
         else if even f then f
         else f + 1)"

definition round_double :: "rat \<Rightarrow> number" where
  "round_double x =
     (if x = 0 then Finite 0
      else
        (let q = max (floor_log2 \<bar>x\<bar>) (- 1022) - 52;
             y = of_int (round_half_even (x / two_to q)) * two_to q
         in if y \<noteq> 0 \<and> 1024 \<le> floor_log2 \<bar>y\<bar>
            then (if 0 < x then PosInfinity else NegInfinity)
            else Finite y))"

fun number_truthy :: "number \<Rightarrow> bool" where
  "number_truthy NaN = False"
| "number_truthy (Finite k) = (k \<noteq> 0)"
| "number_truthy PosInfinity = True"
| "number_truthy NegInfinity = True"

fun minus_number :: "number \<Rightarrow> number \<Rightarrow> number" where
  "minus_number (Finite a) (Finite b) = round_double (a - b)"
| "minus_number NaN y = NaN"
| "minus_number x NaN = NaN"
| "minus_number PosInfinity PosInfinity = NaN"
| "minus_number NegInfinity NegInfinity = NaN"
| "minus_number PosInfinity y = PosInfinity"
| "minus_number NegInfinity y = NegInfinity"
| "minus_number (Finite a) PosInfinity = NegInfinity"
| "minus_number (Finite a) NegInfinity = PosInfinity"

fun times_number :: "number \<Rightarrow> number \<Rightarrow> number" where
  "times_number (Finite a) (Finite b) = round_double (a * b)"
| "times_number NaN y = NaN"
| "times_number x NaN = NaN"
| "times_number PosInfinity PosInfinity = PosInfinity"
| "times_number PosInfinity NegInfinity = NegInfinity"
| "times_number NegInfinity PosInfinity = NegInfinity"
| "times_number NegInfinity NegInfinity = PosInfinity"
| "times_number PosInfinity (Finite b) =
     (if b = 0 then NaN else if b < 0 then NegInfinity else PosInfinity)"
| "times_number NegInfinity (Finite b) =
     (if b = 0 then NaN else if b < 0 then PosInfinity else NegInfinity)"
| "times_number (Finite a) PosInfinity =
     (if a = 0 then NaN else if a < 0 then NegInfinity else PosInfinity)"
| "times_number (Finite a) NegInfinity =
     (if a = 0 then NaN else if a < 0 then PosInfinity else NegInfinity)"

text \<open>
  A \<open>Date\<close> holds a whole number of milliseconds, or is invalid. \<open>new Date(value)\<close>
  refuses a value that is not finite or is more than 8.64e15 ms from the epoch, and cuts
  the fraction off any other, towards zero.
\<close>

datatype date = InvalidDate | Date int

definition ToInteger :: "rat \<Rightarrow> int" where
  "ToInteger t = (if 0 \<le> t then \<lfloor>t\<rfloor> else \<lceil>t\<rceil>)"

fun new_Date :: "number \<Rightarrow> date" where
  "new_Date (Finite t) =
     (if \<bar>t\<bar> \<le> 8640000000000000 then Date (ToInteger t) else InvalidDate)"
| "new_Date NaN = InvalidDate"
| "new_Date PosInfinity = InvalidDate"
| "new_Date NegInfinity = InvalidDate"

fun getTime :: "date \<Rightarrow> number" where
  "getTime (Date t) = Finite (of_int t)"
| "getTime InvalidDate = NaN"

section \<open>Configuration (lines 9 to 15)\<close>

text \<open>
  The three environment variables. \<open>POLLING_INTERVAL_SECONDS\<close> enters as the Number
  that \<open>Number(process.env.POLLING_INTERVAL_SECONDS) * 1000\<close> evaluates to: \<open>NaN\<close>
  when the variable is unset or is not a numeric string, \<open>Finite 0\<close> for \<open>"0"\<close> and
  for the empty string, \<open>Finite (3 / 2)\<close> for \<open>"0.0015"\<close>. The other two are the
  variable's string, or \<open>None\<close> for \<open>undefined\<close>.
\<close>

record process_env =
  env_POLLING_INTERVAL_SECONDS_times_1000 :: number
  env_OTEL_COLLECTOR_URL :: "js_string option"
  env_FILTER_EXPRESSION :: "js_string option"

record config =
  POLLING_INTERVAL :: number
  OTEL_COLLECTOR_URL :: js_string
  FILTER_EXPRESSION :: "js_string option"

text \<open>\<open>Number(process.env.POLLING_INTERVAL_SECONDS) * 1000 || 10000\<close>\<close>

definition polling_interval :: "process_env \<Rightarrow> number" where
  "polling_interval env =
     (if number_truthy (env_POLLING_INTERVAL_SECONDS_times_1000 env)
      then env_POLLING_INTERVAL_SECONDS_times_1000 env
      else Finite 10000)"

text \<open>
  The module's top-level statements before the first function: they either throw, which
  ends the process before anything else runs, or fix the configuration.
\<close>

definition startup :: "process_env \<Rightarrow> js_error + config" where
  "startup env =
     (case env_OTEL_COLLECTOR_URL env of
        None \<Rightarrow> Inl (Error (js ''OTEL_COLLECTOR_URL environment variable is required''))
      | Some url \<Rightarrow>
          if url = [] then Inl (Error (js ''OTEL_COLLECTOR_URL environment variable is required''))
          else Inr \<lparr>POLLING_INTERVAL = polling_interval env,
                    OTEL_COLLECTOR_URL = url,
                    FILTER_EXPRESSION = env_FILTER_EXPRESSION env\<rparr>)"

section \<open>Effects\<close>

text \<open>
  What the process does to the outside, in order: console lines, the two paginated reads
  it opens, the datagrams it hands to the socket and the timers it sets. The state of a
  run is the list of these events so far.
\<close>

datatype log_arg = Text string | Count nat | Thrown js_error

datatype event =
    ConsoleLog "log_arg list"
  | ConsoleError "log_arg list"
  | GetTraceSummaries date date "js_string option"
  | BatchGetTraces "js_string list"
  | UdpSend buffer nat nat nat js_string
  | SetTimeout number

type_synonym state = "event list"

text \<open>
  How a statement ends: normally, by \<open>return\<close>, by a thrown value, or not at all.
\<close>

datatype completion = Normal | Return | Throw js_error | Diverge

text \<open>
  The shapes of the X-Ray client's results, with the fields this program reads:
  every one of them is optional in the client's types.
\<close>

record Segment =
  Document :: "js_string option"

record Trace =
  Segments :: "Segment list option"

record BatchGetTracesResult =
  Traces :: "Trace list option"

record TraceSummary =
  Id' :: "js_string option"

record GetTraceSummariesResult =
  TraceSummaries :: "TraceSummary list option"

text \<open>
  A paginator is an asynchronous generator: it yields pages one at a time and then either
  finishes or throws. The pages are requested as the loop asks for them, so a page is
  processed before the next one is read.
\<close>

datatype 'p pages = Finished | Throws js_error | Page 'p "'p pages"

text \<open>
  The outside world: the clock read by \<open>new Date()\<close> and the two paginators of the
  X-Ray client. Each may answer differently as the run goes on, so each takes the events
  so far.
\<close>

record world =
  clock :: "state \<Rightarrow> int"
  paginateGetTraceSummaries ::
    "state \<Rightarrow> date \<Rightarrow> date \<Rightarrow> js_string option \<Rightarrow> GetTraceSummariesResult pages"
  paginateBatchGetTraces :: "state \<Rightarrow> js_string list \<Rightarrow> BatchGetTracesResult pages"

subsection \<open>Loops\<close>

text \<open>
  \<open>array.forEach(f)\<close> and \<open>for (const x of array)\<close>: the elements in order, stopping
  at the first one whose processing does not end normally.
\<close>

fun forEach :: "('a \<Rightarrow> state \<Rightarrow> completion \<times> state) \<Rightarrow> 'a list \<Rightarrow> state \<Rightarrow> completion \<times> state" where
  "forEach f [] s = (Normal, s)"
| "forEach f (x # xs) s =
     (case f x s of
        (Normal, s') \<Rightarrow> forEach f xs s'
      | (c, s') \<Rightarrow> (c, s'))"

text \<open>\<open>for await (const page of paginator)\<close>\<close>

fun for_await :: "('p \<Rightarrow> state \<Rightarrow> completion \<times> state) \<Rightarrow> 'p pages \<Rightarrow> state \<Rightarrow> completion \<times> state" where
  "for_await body Finished s = (Normal, s)"
| "for_await body (Throws e) s = (Throw e, s)"
| "for_await body (Page p rest) s =
     (case body p s of
        (Normal, s') \<Rightarrow> for_await body rest s'
      | (c, s') \<Rightarrow> (c, s'))"

text \<open>The pages \<open>ps\<close> in order, and then what \<open>rest\<close> yields.\<close>

fun pages_after :: "'p list \<Rightarrow> 'p pages \<Rightarrow> 'p pages" where
  "pages_after [] rest = rest"
| "pages_after (p # ps) rest = Page p (pages_after ps rest)"

section \<open>\<open>sendTracesToOtelUdp\<close> (lines 66 to 90)\<close>

definition envelope_header :: string where
  \<open>envelope_header = ''{"format": "json", "version": 1}\<newline>''\<close>

text \<open>
  The callback given to \<open>traceData.Segments?.forEach\<close>. \<open>!trace.Document\<close> holds for
  \<open>undefined\<close> and for the empty string. The callback of \<open>send\<close> runs later and only
  writes a console line, so a send is one event.
\<close>

definition segment_callback :: "config \<Rightarrow> Segment \<Rightarrow> state \<Rightarrow> completion \<times> state" where
  "segment_callback cfg trace s =
     (case Document trace of
        None \<Rightarrow> (Normal, s)
      | Some doc \<Rightarrow>
          if doc = [] then (Normal, s)
          else
            (case JSON_parse doc of
               Inl e \<Rightarrow> (Throw e, s)
             | Inr v \<Rightarrow>
                 (case get_inferred v of
                    Inl e \<Rightarrow> (Throw e, s)
                  | Inr inferred \<Rightarrow>
                      if ToBoolean inferred then (Normal, s)
                      else
                        (let message = Buffer_from (js envelope_header @ doc)
                         in (Normal,
                             s @ [UdpSend message 0 (length message) 2000 (OTEL_COLLECTOR_URL cfg)])))))"

definition sendTracesToOtelUdp :: "config \<Rightarrow> Trace \<Rightarrow> state \<Rightarrow> completion \<times> state" where
  "sendTracesToOtelUdp cfg traceData s =
     (case Segments traceData of
        None \<Rightarrow> (Normal, s)
      | Some segments \<Rightarrow> forEach (segment_callback cfg) segments s)"

section \<open>\<open>fetchTraces\<close> (lines 18 to 62)\<close>

text \<open>\<open>array.slice(start, end)\<close> for \<open>0 \<le> start\<close>.\<close>

definition slice :: "'a list \<Rightarrow> nat \<Rightarrow> nat \<Rightarrow> 'a list" where
  "slice array start end = take (end - start) (drop start array)"

text \<open>
  The generator \<open>batchArray\<close>, by the value of its loop variable \<open>i\<close>. With a
  size of 0 and a non-empty array the loop never ends: the value is \<open>None\<close>.
\<close>

partial_function (option) batchArray_from :: "'a list \<Rightarrow> nat \<Rightarrow> nat \<Rightarrow> 'a list list option" where
  "batchArray_from array size' i =
     (if i < length array then
        Option.bind (batchArray_from array size' (i + size'))
          (\<lambda>chunks. Some (slice array i (i + size') # chunks))
      else Some [])"

declare batchArray_from.simps [code]

definition batchArray :: "'a list \<Rightarrow> nat \<Rightarrow> 'a list list option" where
  "batchArray array size' = batchArray_from array size' 0"

text \<open>
  \<open>traceSummaries.TraceSummaries?.flatMap((trace) => trace.Id ? [trace.Id] : [])\<close>:
  \<open>undefined\<close> without the array; a summary without an identifier, or with an empty
  one, gives none.
\<close>

definition traceIds_of :: "GetTraceSummariesResult \<Rightarrow> js_string list option" where
  "traceIds_of traceSummaries =
     (case TraceSummaries traceSummaries of
        None \<Rightarrow> None
      | Some summaries \<Rightarrow>
          Some (concat (map (\<lambda>trace. case Id' trace of
                                        None \<Rightarrow> []
                                      | Some i \<Rightarrow> if i = [] then [] else [i])
                            summaries)))"

text \<open>The body of the inner \<open>for await\<close> (line 54).\<close>

definition traces_page_body :: "config \<Rightarrow> BatchGetTracesResult \<Rightarrow> state \<Rightarrow> completion \<times> state" where
  "traces_page_body cfg traces s =
     (case Traces traces of
        None \<Rightarrow> (Normal, s)
      | Some ts \<Rightarrow> forEach (sendTracesToOtelUdp cfg) ts s)"

text \<open>The body of \<open>for (const batch of batchedTraceIds)\<close> (lines 48 to 55).\<close>

definition batch_body :: "config \<Rightarrow> world \<Rightarrow> js_string list \<Rightarrow> state \<Rightarrow> completion \<times> state" where
  "batch_body cfg w batch s =
     for_await (traces_page_body cfg) (paginateBatchGetTraces w s batch) (s @ [BatchGetTraces batch])"

text \<open>
  The body of the outer \<open>for await\<close> (lines 27 to 57). The generator slices its chunks
  as the loop asks for them; what the loop does in between does not change the array, so
  they are the chunks of \<open>batchArray\<close> taken at once.
\<close>

definition summaries_page_body ::
    "config \<Rightarrow> world \<Rightarrow> GetTraceSummariesResult \<Rightarrow> state \<Rightarrow> completion \<times> state" where
  "summaries_page_body cfg w traceSummaries s =
     (case traceIds_of traceSummaries of
        None \<Rightarrow> (Return, s @ [ConsoleLog [Text ''No trace IDs found'']])
      | Some traceIds \<Rightarrow>
          (let s1 = s @ [ConsoleLog [Text ''Found'', Count (length traceIds), Text ''traces from xray'']]
           in case batchArray traceIds 5 of
                None \<Rightarrow> (Diverge, s1)
              | Some batchedTraceIds \<Rightarrow>
                  (case forEach (batch_body cfg w) batchedTraceIds s1 of
                     (Normal, s2) \<Rightarrow>
                       (Normal,
                        s2 @ [ConsoleLog [Text ''Sent'', Count (length traceIds), Text ''traces to OTel'']])
                   | (c, s2) \<Rightarrow> (c, s2))))"

text \<open>Lines 19 and 20: the window of one cycle, from the clock's reading.\<close>

definition time_window :: "config \<Rightarrow> int \<Rightarrow> date \<times> date" where
  "time_window cfg now =
     (let EndTime = Date now;
          StartTime = new_Date (minus_number (getTime EndTime) (POLLING_INTERVAL cfg))
      in (StartTime, EndTime))"

text \<open>The \<open>try\<close> block, then the function with its \<open>catch\<close>.\<close>

definition fetchTraces_try :: "config \<Rightarrow> world \<Rightarrow> state \<Rightarrow> completion \<times> state" where
  "fetchTraces_try cfg w s =
     (case time_window cfg (clock w s) of
        (StartTime, EndTime) \<Rightarrow>
          for_await (summaries_page_body cfg w)
            (paginateGetTraceSummaries w s StartTime EndTime (FILTER_EXPRESSION cfg))
            (s @ [GetTraceSummaries StartTime EndTime (FILTER_EXPRESSION cfg)]))"

definition fetchTraces :: "config \<Rightarrow> world \<Rightarrow> state \<Rightarrow> completion \<times> state" where
  "fetchTraces cfg w s =
     (case fetchTraces_try cfg w s of
        (Throw error, s') \<Rightarrow> (Normal, s' @ [ConsoleError [Text ''Error fetching traces:'', Thrown error]])
      | (Return, s') \<Rightarrow> (Normal, s')
      | (c, s') \<Rightarrow> (c, s'))"

section \<open>\<open>main\<close> (lines 92 to 98 and 108)\<close>

text \<open>One pass through the body of \<open>while (true)\<close>.\<close>

definition cycle :: "config \<Rightarrow> world \<Rightarrow> state \<Rightarrow> completion \<times> state" where
  "cycle cfg w s =
     (case fetchTraces cfg w (s @ [ConsoleLog [Text ''Polling X-Ray for traces'']]) of
        (Normal, s') \<Rightarrow> (Normal, s' @ [SetTimeout (POLLING_INTERVAL cfg)])
      | (c, s') \<Rightarrow> (c, s'))"

text \<open>
  The loop has no exit of its own. \<open>main n\<close> is its first \<open>n\<close> passes: \<open>Normal\<close>
  says that the loop is still running after them, anything else that a pass ended it.
\<close>

fun main :: "nat \<Rightarrow> config \<Rightarrow> world \<Rightarrow> state \<Rightarrow> completion \<times> state" where
  "main 0 cfg w s = (Normal, s)"
| "main (Suc n) cfg w s =
     (case cycle cfg w s of
        (Normal, s') \<Rightarrow> main n cfg w s'
      | (c, s') \<Rightarrow> (c, s'))"

text \<open>
  The whole module, up to \<open>n\<close> passes of the loop: the configuration, then
  \<open>main().catch(...)\<close>.
\<close>

definition program :: "nat \<Rightarrow> process_env \<Rightarrow> world \<Rightarrow> completion \<times> state" where
  "program n env w =
     (case startup env of
        Inl e \<Rightarrow> (Throw e, [])
      | Inr cfg \<Rightarrow>
          (case main n cfg w [] of
             (Throw error, s) \<Rightarrow> (Normal, s @ [ConsoleError [Text ''Error in main:'', Thrown error]])
           | (c, s) \<Rightarrow> (c, s)))"

text \<open>The batch reads a run has opened, in order.\<close>

fun batch_calls :: "state \<Rightarrow> js_string list list" where
  "batch_calls [] = []"
| "batch_calls (BatchGetTraces batch # evs) = batch # batch_calls evs"
| "batch_calls (ev # evs) = batch_calls evs"

text \<open>The datagrams a run has handed to the socket, in order.\<close>

fun datagrams :: "state \<Rightarrow> buffer list" where
  "datagrams [] = []"
| "datagrams (UdpSend message offset len port host # evs) =
     take len (drop offset message) # datagrams evs"
| "datagrams (ev # evs) = datagrams evs"

text \<open>The timers a run has set, in order.\<close>

fun timers :: "state \<Rightarrow> number list" where
  "timers [] = []"
| "timers (SetTimeout delay # evs) = delay # timers evs"
| "timers (ev # evs) = timers evs"

text \<open>\<open>StartTime < EndTime\<close>, on the time values.\<close>

fun date_less :: "date \<Rightarrow> date \<Rightarrow> bool" where
  "date_less (Date a) (Date b) = (a < b)"
| "date_less InvalidDate d = False"
| "date_less d InvalidDate = False"

section \<open>Example inputs\<close>

definition example_config :: config where
  "example_config =
     \<lparr>POLLING_INTERVAL = Finite 10000,
      OTEL_COLLECTOR_URL = js ''127.0.0.1'',
      FILTER_EXPRESSION = None\<rparr>"

definition forwardable_example :: js_string where
  \<open>forwardable_example = js ''{"name": "api", "inferred": false}''\<close>

definition inferred_example :: js_string where
  \<open>inferred_example = js ''{"inferred": true, "name": "remote"}''\<close>

text \<open>A backend with nothing to report.\<close>

definition quiet_world :: world where
  "quiet_world =
     \<lparr>clock = (\<lambda>s. 1700000000000),
      paginateGetTraceSummaries = (\<lambda>s StartTime EndTime FilterExpression. Finished),
      paginateBatchGetTraces = (\<lambda>s TraceIds. Finished)\<rparr>"

text \<open>One summary page of seven traces.\<close>

definition seven_ids :: "js_string list" where
  "seven_ids = [js ''1-a'', js ''1-b'', js ''1-c'', js ''1-d'', js ''1-e'', js ''1-f'', js ''1-g'']"

definition seven_page :: GetTraceSummariesResult where
  "seven_page = \<lparr>TraceSummaries = Some (map (\<lambda>i. \<lparr>Id' = Some i\<rparr>) seven_ids)\<rparr>"

text \<open>
  A backend whose summary read gives one page and fails on the next, and whose batch read
  gives one trace of one segment.
\<close>

definition throttled_world :: world where
  "throttled_world =
     \<lparr>clock = (\<lambda>s. 1700000000000),
      paginateGetTraceSummaries = (\<lambda>s StartTime EndTime FilterExpression.
         Page \<lparr>TraceSummaries = Some [\<lparr>Id' = Some (js ''1-a'')\<rparr>]\<rparr>
           (Throws (ServiceException (js ''ThrottledException'')))),
      paginateBatchGetTraces = (\<lambda>s TraceIds.
         Page \<lparr>Traces = Some [\<lparr>Segments = Some [\<lparr>Document = Some forwardable_example\<rparr>]\<rparr>]\<rparr>
           Finished)\<rparr>"

text \<open>
  A backend whose batch read gives one trace of three segments, the second of them with a
  Document cut short.
\<close>

definition malformed_world :: world where
  \<open>malformed_world =
     \<lparr>clock = (\<lambda>s. 1700000000000),
      paginateGetTraceSummaries = (\<lambda>s StartTime EndTime FilterExpression.
         Page \<lparr>TraceSummaries = Some [\<lparr>Id' = Some (js ''1-a'')\<rparr>]\<rparr> Finished),
      paginateBatchGetTraces = (\<lambda>s TraceIds.
         Page \<lparr>Traces = Some [\<lparr>Segments = Some
                  [\<lparr>Document = Some (js ''{"id": 1}'')\<rparr>,
                   \<lparr>Document = Some (js ''{"id": 2'')\<rparr>,
                   \<lparr>Document = Some (js ''{"id": 3}'')\<rparr>]\<rparr>]\<rparr>
           Finished)\<rparr>\<close>

text \<open>Environments: a complete one, and the same with one variable changed.\<close>

definition example_env :: process_env where
  "example_env =
     \<lparr>env_POLLING_INTERVAL_SECONDS_times_1000 = Finite 30000,
      env_OTEL_COLLECTOR_URL = Some (js ''127.0.0.1''),
      env_FILTER_EXPRESSION = None\<rparr>"

definition no_collector_env :: process_env where
  "no_collector_env = example_env\<lparr>env_OTEL_COLLECTOR_URL := None\<rparr>"

definition unset_interval_env :: process_env where
  "unset_interval_env = example_env\<lparr>env_POLLING_INTERVAL_SECONDS_times_1000 := NaN\<rparr>"

definition zero_interval_env :: process_env where
  "zero_interval_env = example_env\<lparr>env_POLLING_INTERVAL_SECONDS_times_1000 := Finite 0\<rparr>"

text \<open>
  What \<open>Number(v) * 1000\<close> evaluates to when \<open>v\<close> is a decimal literal of the exact
  value \<open>d\<close>: the literal's double, times 1000.
\<close>

definition Number_times_1000 :: "rat \<Rightarrow> number" where
  "Number_times_1000 d = times_number (round_double d) (Finite 1000)"

text \<open>
  \<open>POLLING_INTERVAL_SECONDS=0.0015\<close>, \<open>POLLING_INTERVAL_SECONDS=1.001\<close> and
  \<open>POLLING_INTERVAL_SECONDS=1e-7\<close>.
\<close>

definition fractional_interval_env :: process_env where
  "fractional_interval_env =
     example_env\<lparr>env_POLLING_INTERVAL_SECONDS_times_1000 := Number_times_1000 (15 / 10000)\<rparr>"

definition inexact_interval_env :: process_env where
  "inexact_interval_env =
     example_env\<lparr>env_POLLING_INTERVAL_SECONDS_times_1000 := Number_times_1000 (1001 / 1000)\<rparr>"

definition tiny_interval_env :: process_env where
  "tiny_interval_env =
     example_env\<lparr>env_POLLING_INTERVAL_SECONDS_times_1000 := Number_times_1000 (1 / 10 ^ 7)\<rparr>"

section \<open>The parser uses less fuel than it is given\<close>

lemma skip_ws_length: "length (skip_ws s) \<le> length s"
  by (simp add: skip_ws_def length_dropWhile_le)

lemma skip_ws_Cons: "skip_ws s = c # cs \<Longrightarrow> length cs < length s"
  using skip_ws_length [of s] by simp

lemma parse_chars_length: "parse_chars s = Some (str, r) \<Longrightarrow> length r < length s"
proof (induction s arbitrary: str r rule: length_induct)
  case (1 xs)
  have IH: "\<And>ys str r. length ys < length xs \<Longrightarrow> parse_chars ys = Some (str, r) \<Longrightarrow> length r < length ys"
    using "1.IH" by blast
  show ?case
  proof (cases xs)
    case Nil
    with "1.prems" show ?thesis by simp
  next
    case (Cons c cs)
    with "1.prems" show ?thesis
      by (auto split: if_splits list.splits option.splits prod.splits dest!: IH [rotated])
  qed
qed

lemma parse_frac_length: "parse_frac s = Some (ds, r) \<Longrightarrow> length r \<le> length s"
  by (auto simp: parse_frac_def Let_def split: list.splits if_splits)

lemma parse_exp_digits_length: "parse_exp_digits b s = Some (e, r) \<Longrightarrow> length r \<le> length s"
  by (auto simp: parse_exp_digits_def Let_def split: if_splits)

lemma parse_exp_length: "parse_exp s = Some (e, r) \<Longrightarrow> length r \<le> length s"
  by (auto simp: parse_exp_def split: list.splits if_splits dest: parse_exp_digits_length)

lemma parse_number_length: "parse_number s = Some (x, r) \<Longrightarrow> length r \<le> length s"
  unfolding parse_number_def Let_def
  by (auto split: list.splits if_splits option.splits prod.splits
           dest!: parse_exp_length parse_frac_length)

lemma parse_length:
  "(\<forall>s v r. parse_value n s = Ok v r \<longrightarrow> length r \<le> length s) \<and>
   (\<forall>s v r. parse_elements n s = Ok v r \<longrightarrow> length r \<le> length s) \<and>
   (\<forall>s v r. parse_members n s = Ok v r \<longrightarrow> length r \<le> length s)"
proof (induction n)
  case 0
  show ?case by simp
next
  case (Suc n)
  have V: "\<And>s v r. parse_value n s = Ok v r \<Longrightarrow> length r \<le> length s"
   and E: "\<And>s v r. parse_elements n s = Ok v r \<Longrightarrow> length r \<le> length s"
   and M: "\<And>s v r. parse_members n s = Ok v r \<Longrightarrow> length r \<le> length s"
    using Suc by blast+
  have "length r \<le> length s" if "parse_value (Suc n) s = Ok v r" for s v r
    using that
    by (auto split: list.splits if_splits parsed.splits option.splits prod.splits
        dest!: skip_ws_Cons parse_chars_length parse_number_length E M)
  moreover have "length r \<le> length s" if "parse_elements (Suc n) s = Ok v r" for s v r
    using that
    by (auto split: list.splits if_splits parsed.splits option.splits prod.splits
        dest!: skip_ws_Cons V E)
  moreover have "length r \<le> length s" if "parse_members (Suc n) s = Ok v r" for s v r
    using that
    by (auto split: list.splits if_splits parsed.splits option.splits prod.splits
        dest!: skip_ws_Cons parse_chars_length V M)
  ultimately show ?case by blast
qed

lemmas parse_value_length = parse_length [THEN conjunct1, rule_format]
lemmas parse_elements_length = parse_length [THEN conjunct2, THEN conjunct1, rule_format]
lemmas parse_members_length = parse_length [THEN conjunct2, THEN conjunct2, rule_format]

lemma parse_fuel:
  "(\<forall>s. 2 * length s < n \<longrightarrow> parse_value n s \<noteq> NoFuel) \<and>
   (\<forall>s. 2 * length s + 1 < n \<longrightarrow> parse_elements n s \<noteq> NoFuel) \<and>
   (\<forall>s. 2 * length s + 1 < n \<longrightarrow> parse_members n s \<noteq> NoFuel)"
proof (induction n)
  case 0
  show ?case by simp
next
  case (Suc n)
  have V: "\<And>s. 2 * length s < n \<Longrightarrow> parse_value n s \<noteq> NoFuel"
   and E: "\<And>s. 2 * length s + 1 < n \<Longrightarrow> parse_elements n s \<noteq> NoFuel"
   and M: "\<And>s. 2 * length s + 1 < n \<Longrightarrow> parse_members n s \<noteq> NoFuel"
    using Suc by blast+
  have "parse_value (Suc n) s \<noteq> NoFuel" if "2 * length s < Suc n" for s
  proof
    assume "parse_value (Suc n) s = NoFuel"
    then obtain c cs d ds where
      s: "skip_ws s = c # cs" and cs: "skip_ws cs = d # ds"
      and rest: "parse_members n (d # ds) = NoFuel \<or> parse_elements n (d # ds) = NoFuel"
      by (auto split: list.splits if_splits option.splits prod.splits parsed.splits)
    have "2 * length (d # ds) + 1 < n"
      using that skip_ws_Cons [OF s] skip_ws_Cons [OF cs] by simp
    then have "parse_elements n (d # ds) \<noteq> NoFuel" "parse_members n (d # ds) \<noteq> NoFuel"
      by (rule E, rule M)
    with rest show False by blast
  qed
  moreover have "parse_elements (Suc n) s \<noteq> NoFuel" if "2 * length s + 1 < Suc n" for s
  proof (cases "parse_value n s")
    case (Ok v r)
    then have r: "length r \<le> length s" by (rule parse_value_length)
    show ?thesis
    proof (cases "skip_ws r")
      case Nil
      with Ok show ?thesis by simp
    next
      case (Cons c cs)
      then have "length cs < length r" by (rule skip_ws_Cons)
      with r that have "2 * length cs + 1 < n" by simp
      then have "parse_elements n cs \<noteq> NoFuel" by (rule E)
      with Ok Cons show ?thesis by (simp split: parsed.splits)
    qed
  next
    case Bad
    then show ?thesis by simp
  next
    case NoFuel
    moreover from that have "parse_value n s \<noteq> NoFuel" by (intro V) simp
    ultimately show ?thesis by simp
  qed
  moreover have "parse_members (Suc n) s \<noteq> NoFuel" if "2 * length s + 1 < Suc n" for s
  proof -
    have "parse_members (Suc n) s = NoFuel \<Longrightarrow> False"
    proof -
      assume a: "parse_members (Suc n) s = NoFuel"
      then obtain q cs key r colon r1 where
        s: "skip_ws s = q # cs" and k: "parse_chars cs = Some (key, r)"
        and c: "skip_ws r = colon # r1"
        and rest: "parse_value n r1 = NoFuel \<or>
          (\<exists>v r2 c r3. parse_value n r1 = Ok v r2 \<and> skip_ws r2 = c # r3 \<and> parse_members n r3 = NoFuel)"
        by (auto split: list.splits if_splits option.splits prod.splits parsed.splits)
      have l1: "length r1 < length s"
        using skip_ws_Cons [OF s] parse_chars_length [OF k] skip_ws_Cons [OF c] by simp
      with that have "parse_value n r1 \<noteq> NoFuel" by (intro V) simp
      with rest obtain v r2 c r3 where
        v: "parse_value n r1 = Ok v r2" and r3: "skip_ws r2 = c # r3" and m: "parse_members n r3 = NoFuel"
        by blast
      have "length r3 < length s"
        using l1 parse_value_length [OF v] skip_ws_Cons [OF r3] by simp
      with that have "parse_members n r3 \<noteq> NoFuel" by (intro M) simp
      with m show False by simp
    qed
    then show ?thesis by blast
  qed
  ultimately show ?case by blast
qed

lemma parse_value_fuel: "parse_value (2 * length text + 2) text \<noteq> NoFuel"
  using parse_fuel [of "2 * length text + 2"] by simp

section \<open>Rounding to a double\<close>

lemma two_to_pos: "0 < two_to k"
  by (simp add: two_to_def)

lemma two_to_powi: "two_to k = 2 powi k"
  by (simp add: two_to_def power_int_def inverse_eq_divide power_divide)

lemma two_to_mono: "j \<le> k \<Longrightarrow> two_to j \<le> two_to k"
  unfolding two_to_powi by (rule power_int_increasing) simp_all

lemma floor_log2_le:
  assumes "0 < x"
  shows "two_to (floor_log2 x) \<le> x"
proof (cases "1 \<le> x")
  case True
  then have pos: "0 < \<lfloor>x\<rfloor>" by simp
  from bitlen_bounds [OF pos] have "2 ^ nat (bitlen \<lfloor>x\<rfloor> - 1) \<le> \<lfloor>x\<rfloor>" by simp
  then have "(of_int (2 ^ nat (bitlen \<lfloor>x\<rfloor> - 1)) :: rat) \<le> of_int \<lfloor>x\<rfloor>"
    by (simp only: of_int_le_iff)
  also have "\<dots> \<le> x" by simp
  finally have "2 ^ nat (bitlen \<lfloor>x\<rfloor> - 1) \<le> x" by simp
  moreover from pos have "1 \<le> bitlen \<lfloor>x\<rfloor>" by (simp add: bitlen_alt_def)
  ultimately show ?thesis using True by (simp add: floor_log2_def two_to_def)
next
  case False
  let ?n = "\<lceil>1 / x\<rceil> - 1"
  from False assms have "1 < 1 / x" by simp
  then have "1 < \<lceil>1 / x\<rceil>" by (simp add: less_ceiling_iff)
  then have pos: "0 < ?n" by simp
  from bitlen_bounds [OF pos] have le: "\<lceil>1 / x\<rceil> \<le> 2 ^ nat (bitlen ?n)" by simp
  have "1 / x \<le> of_int \<lceil>1 / x\<rceil>" by simp
  also from le have "\<dots> \<le> of_int (2 ^ nat (bitlen ?n))" by (simp only: of_int_le_iff)
  also have "\<dots> = 2 ^ nat (bitlen ?n)" by simp
  finally have "1 / x \<le> 2 ^ nat (bitlen ?n)" .
  with assms have "1 / 2 ^ nat (bitlen ?n) \<le> x"
    by (simp add: field_simps)
  moreover have "0 \<le> bitlen ?n" by (rule bitlen_nonneg)
  ultimately show ?thesis using False
    by (auto simp: floor_log2_def two_to_def)
qed

lemma floor_log2_less:
  assumes "0 < x" and "x < 2 ^ n"
  shows "floor_log2 x < int n"
proof (rule ccontr)
  assume "\<not> floor_log2 x < int n"
  then have "two_to (int n) \<le> two_to (floor_log2 x)" by (intro two_to_mono) simp
  also have "\<dots> \<le> x" using assms(1) by (rule floor_log2_le)
  finally show False using assms(2) by (simp add: two_to_def)
qed

lemma round_half_even_bounds: "\<lfloor>t\<rfloor> \<le> round_half_even t \<and> round_half_even t \<le> \<lceil>t\<rceil>"
proof -
  have "t = of_int \<lfloor>t\<rfloor> \<or> \<lceil>t\<rceil> = \<lfloor>t\<rfloor> + 1"
    by (metis ceiling_altdef)
  moreover have "t - of_int \<lfloor>t\<rfloor> < 1 / 2" if "t = of_int \<lfloor>t\<rfloor>"
  proof -
    from that have "t - of_int \<lfloor>t\<rfloor> = 0" by simp
    then show ?thesis by simp
  qed
  ultimately show ?thesis
    by (auto simp: round_half_even_def Let_def)
qed

lemma floor_ceiling_between:
  fixes x :: rat
  assumes "of_int a \<le> x" and "x \<le> of_int b"
  shows "of_int a \<le> (of_int \<lfloor>x\<rfloor> :: rat) \<and> (of_int \<lceil>x\<rceil> :: rat) \<le> of_int b"
proof -
  from assms have "a \<le> \<lfloor>x\<rfloor>" "\<lceil>x\<rceil> \<le> b"
    by (simp_all add: le_floor_iff ceiling_le_iff)
  then show ?thesis by (simp only: of_int_le_iff)
qed

lemma round_double_bracket:
  assumes "\<bar>x\<bar> < 2 ^ 53"
  shows "\<exists>y. round_double x = Finite y \<and> of_int \<lfloor>x\<rfloor> \<le> y \<and> y \<le> of_int \<lceil>x\<rceil>"
proof (cases "x = 0")
  case True
  then show ?thesis by (simp add: round_double_def)
next
  case False
  define q where "q = max (floor_log2 \<bar>x\<bar>) (- 1022) - 52"
  define n where "n = nat (- q)"
  define m where "m = round_half_even (x / two_to q)"
  define y where "y = of_int m * two_to q"
  from False assms have "floor_log2 \<bar>x\<bar> < int 53"
    by (intro floor_log2_less) simp_all
  then have "q \<le> 0" by (simp add: q_def)
  then have q: "two_to q = 1 / 2 ^ n"
    by (auto simp: two_to_def n_def)
  then have t: "x / two_to q = x * 2 ^ n" by simp
  have "(of_int (\<lfloor>x\<rfloor> * 2 ^ n) :: rat) \<le> x * 2 ^ n"
    by (simp add: mult_right_mono)
  then have "\<lfloor>x\<rfloor> * 2 ^ n \<le> \<lfloor>x * 2 ^ n\<rfloor>"
    by (simp only: le_floor_iff)
  moreover have "x * 2 ^ n \<le> (of_int (\<lceil>x\<rceil> * 2 ^ n) :: rat)"
    by (simp add: mult_right_mono)
  then have "\<lceil>x * 2 ^ n\<rceil> \<le> \<lceil>x\<rceil> * 2 ^ n"
    by (simp only: ceiling_le_iff)
  moreover note round_half_even_bounds [of "x * 2 ^ n"]
  ultimately have "\<lfloor>x\<rfloor> * 2 ^ n \<le> m" "m \<le> \<lceil>x\<rceil> * 2 ^ n"
    by (simp_all add: m_def t)
  then have "(of_int (\<lfloor>x\<rfloor> * 2 ^ n) :: rat) \<le> of_int m" "(of_int m :: rat) \<le> of_int (\<lceil>x\<rceil> * 2 ^ n)"
    by (simp_all only: of_int_le_iff)
  then have lo: "of_int \<lfloor>x\<rfloor> \<le> y" and hi: "y \<le> of_int \<lceil>x\<rceil>"
    by (simp_all add: y_def q field_simps)
  have "(- (2 ^ 53) :: rat) \<le> of_int \<lfloor>x\<rfloor>" "(of_int \<lceil>x\<rceil> :: rat) \<le> 2 ^ 53"
    using assms floor_ceiling_between [of "- (2 ^ 53)" x "2 ^ 53"]
    by (simp_all add: abs_less_iff)
  with lo hi have "- (2 ^ 53) \<le> y \<and> y \<le> 2 ^ 53" by linarith
  then have "\<bar>y\<bar> < 2 ^ 54" by (simp add: abs_less_iff)
  then have "floor_log2 \<bar>y\<bar> < 1024" if "y \<noteq> 0"
    using floor_log2_less [of "\<bar>y\<bar>" 54] that by simp
  then have fits: "\<not> (y \<noteq> 0 \<and> 1024 \<le> floor_log2 \<bar>y\<bar>)"
    by auto
  have "round_double x =
      (if y \<noteq> 0 \<and> 1024 \<le> floor_log2 \<bar>y\<bar>
       then (if 0 < x then PosInfinity else NegInfinity) else Finite y)"
    using False by (simp add: round_double_def Let_def q_def m_def y_def)
  with fits have "round_double x = Finite y"
    by (simp only: if_False)
  with lo hi show ?thesis by blast
qed

lemma round_double_of_int:
  assumes "\<bar>k\<bar> < 2 ^ 53"
  shows "round_double (of_int k) = Finite (of_int k)"
proof -
  from assms have "\<bar>of_int k :: rat\<bar> < 2 ^ 53"
    by (metis of_int_abs of_int_less_numeral_power_cancel_iff)
  from round_double_bracket [OF this] show ?thesis by auto
qed

lemma ToInteger_bounds: "\<lfloor>t\<rfloor> \<le> ToInteger t \<and> ToInteger t \<le> \<lceil>t\<rceil>"
  by (simp add: ToInteger_def)

lemma ToInteger_of_int: "ToInteger (of_int k) = k"
  by (simp add: ToInteger_def)

lemma floor_log2_ge:
  assumes "2 ^ n \<le> x"
  shows "int n \<le> floor_log2 x"
proof -
  have one: "(1 :: rat) \<le> 2 ^ n" by simp
  with assms have x1: "1 \<le> x" by linarith
  then have pos: "0 < \<lfloor>x\<rfloor>" by simp
  have "(of_int (2 ^ n) :: rat) \<le> x" using assms by simp
  then have "2 ^ n \<le> \<lfloor>x\<rfloor>" by (simp only: le_floor_iff)
  also from bitlen_bounds [OF pos] have "\<lfloor>x\<rfloor> < 2 ^ nat (bitlen \<lfloor>x\<rfloor>)" by simp
  finally have "(2 :: int) ^ n < 2 ^ nat (bitlen \<lfloor>x\<rfloor>)" .
  then have "n < nat (bitlen \<lfloor>x\<rfloor>)" by simp
  then show ?thesis using x1 by (simp add: floor_log2_def)
qed

lemma round_half_even_below:
  assumes "even N" and "0 < r"
  shows "(round_half_even (of_int N - r) = N) = (r \<le> 1 / 2)"
proof (cases "r \<le> 1")
  case True
  have f: "\<lfloor>of_int N - r\<rfloor> = N - 1"
    using assms(2) True by (intro floor_unique) simp_all
  from assms(1) have odd: "odd (N - 1)" by simp
  show ?thesis
    using assms(2) True odd by (auto simp: round_half_even_def Let_def f)
next
  case False
  then have "of_int N - r < of_int (N - 1)" by simp
  then have "of_int N - r \<le> of_int (N - 1)" by simp
  then have "\<lceil>of_int N - r\<rceil> \<le> N - 1" by (simp only: ceiling_le_iff)
  with round_half_even_bounds [of "of_int N - r"] have "round_half_even (of_int N - r) < N"
    by linarith
  with False show ?thesis by simp
qed

text \<open>
  With the clock between \<open>2 ^ 40\<close> and \<open>2 ^ 41\<close> ms, the doubles next to its reading
  are \<open>2 ^ -12\<close> apart: an interval of up to half of that is lost in the subtraction.
\<close>

lemma minus_number_absorbs:
  assumes "2 ^ 40 < now" and "now < 2 ^ 41" and "0 < p" and "p < 1"
  shows "(minus_number (Finite (of_int now)) (Finite p) = Finite (of_int now))
           = (p \<le> 1 / 2 ^ 13)"
proof -
  define x where "x = of_int now - p"
  define t where "t = of_int (now * 4096) - p * 4096"
  define m where "m = round_half_even t"
  define y where "y = of_int m * two_to (- 12)"
  from assms(1) have "2 ^ 40 \<le> now - 1" by simp
  then have "(of_int (2 ^ 40) :: rat) \<le> of_int (now - 1)" by (simp only: of_int_le_iff)
  with assms(4) have lo: "2 ^ 40 \<le> x" by (simp add: x_def)
  from assms(2) have "(of_int now :: rat) < of_int (2 ^ 41)" by (simp only: of_int_less_iff)
  with assms(3) have hi: "x < 2 ^ 41" by (simp add: x_def)
  from lo have pos: "0 < x" by simp
  then have ne: "x \<noteq> 0" and abs: "\<bar>x\<bar> = x" by simp_all
  from lo have "int 40 \<le> floor_log2 x" by (rule floor_log2_ge)
  moreover from pos hi have "floor_log2 x < int 41" by (rule floor_log2_less)
  ultimately have e: "floor_log2 x = 40" by simp
  have q: "max (floor_log2 x) (- 1022) - 52 = - 12"
    by (simp add: e)
  have t: "x / two_to (- 12) = t"
    by (simp add: two_to_def x_def t_def algebra_simps)
  have y: "y = of_int m / 4096" by (simp add: y_def two_to_def)
  from round_half_even_bounds [of t] have "m \<le> \<lceil>t\<rceil>" by (simp add: m_def)
  also have "\<dots> \<le> now * 4096"
  proof -
    from assms(3) have "t \<le> of_int (now * 4096)" by (simp add: t_def)
    then show ?thesis by (simp only: ceiling_le_iff)
  qed
  finally have m_hi: "m \<le> now * 4096" .
  from round_half_even_bounds [of t] have "\<lfloor>t\<rfloor> \<le> m" by (simp add: m_def)
  moreover have "0 \<le> \<lfloor>t\<rfloor>"
  proof -
    from lo have "0 \<le> x * 4096" by simp
    then have "of_int 0 \<le> t" by (simp add: x_def t_def algebra_simps)
    then show ?thesis by (simp only: le_floor_iff)
  qed
  ultimately have m_lo: "0 \<le> m" by linarith
  from m_hi assms(2) have "m < 2 ^ 41 * 4096" by simp
  then have "(of_int m :: rat) < of_int (2 ^ 41 * 4096)" by (simp only: of_int_less_iff)
  then have "y < 2 ^ 41" by (simp add: y)
  moreover from m_lo have "0 \<le> y" by (simp add: y)
  ultimately have "floor_log2 \<bar>y\<bar> < 1024" if "y \<noteq> 0"
    using floor_log2_less [of "\<bar>y\<bar>" 41] that by simp
  then have fits: "\<not> (y \<noteq> 0 \<and> 1024 \<le> floor_log2 \<bar>y\<bar>)"
    by auto
  have "round_double x =
      (if y \<noteq> 0 \<and> 1024 \<le> floor_log2 \<bar>y\<bar>
       then (if 0 < x then PosInfinity else NegInfinity) else Finite y)"
    unfolding round_double_def Let_def abs q t y_def m_def using ne by (simp only: if_False)
  with fits have r: "round_double x = Finite y"
    by (simp only: if_False)
  have "(y = of_int now) = (m = now * 4096)"
  proof
    assume "y = of_int now"
    then have "(of_int m :: rat) = of_int (now * 4096)" by (simp add: y)
    then show "m = now * 4096" by (simp only: of_int_eq_iff)
  next
    assume "m = now * 4096"
    then show "y = of_int now" by (simp add: y)
  qed
  also have "\<dots> = (p * 4096 \<le> 1 / 2)"
    unfolding m_def t_def using assms(3) by (intro round_half_even_below) simp_all
  also have "\<dots> = (p \<le> 1 / 2 ^ 13)" by (simp add: field_simps)
  finally show ?thesis by (simp add: r [unfolded x_def])
qed

text \<open>The start of a window: between the exact difference's floor and ceiling.\<close>

lemma time_window_start:
  assumes "POLLING_INTERVAL cfg = Finite p" and "\<bar>of_int now - p\<bar> \<le> 8640000000000000"
  shows "\<exists>y. minus_number (Finite (of_int now)) (Finite p) = Finite y
           \<and> of_int \<lfloor>of_int now - p\<rfloor> \<le> y \<and> y \<le> of_int \<lceil>of_int now - p\<rceil>
           \<and> time_window cfg now = (Date (ToInteger y), Date now)"
proof -
  from assms(2) have small: "\<bar>of_int now - p\<bar> < 2 ^ 53" by simp
  from round_double_bracket [OF small] obtain y where
    y: "round_double (of_int now - p) = Finite y"
    and lo: "of_int \<lfloor>of_int now - p\<rfloor> \<le> y" and hi: "y \<le> of_int \<lceil>of_int now - p\<rceil>"
    by blast
  have "(- 8640000000000000 :: rat) \<le> of_int \<lfloor>of_int now - p\<rfloor>"
    "(of_int \<lceil>of_int now - p\<rceil> :: rat) \<le> 8640000000000000"
    using assms(2) floor_ceiling_between [of "- 8640000000000000" "of_int now - p" 8640000000000000]
    by (simp_all add: abs_le_iff)
  with lo hi have "- 8640000000000000 \<le> y \<and> y \<le> 8640000000000000" by linarith
  then have "\<bar>y\<bar> \<le> 8640000000000000" by (simp add: abs_le_iff)
  with y assms(1) have "time_window cfg now = (Date (ToInteger y), Date now)"
    by (simp add: time_window_def)
  with y lo hi show ?thesis by auto
qed

lemma time_window_whole:
  assumes "POLLING_INTERVAL cfg = Finite (of_int k)" and "\<bar>now - k\<bar> \<le> 8640000000000000"
  shows "time_window cfg now = (Date (now - k), Date now)"
proof -
  from assms(2) have "\<bar>now - k\<bar> < 2 ^ 53" by simp
  then have "round_double (of_int (now - k)) = Finite (of_int (now - k))"
    by (rule round_double_of_int)
  moreover from assms(2) have "\<bar>of_int (now - k) :: rat\<bar> \<le> 8640000000000000"
    by (metis of_int_abs of_int_le_numeral_iff)
  ultimately show ?thesis
    using assms(1) ToInteger_of_int [of "now - k"] by (simp add: time_window_def)
qed

section \<open>Properties of the parts\<close>

lemma Buffer_from_plain:
  "\<not> is_lead_surrogate u \<Longrightarrow> \<not> is_trail_surrogate u \<Longrightarrow>
     Buffer_from (u # rest) = utf8_code_point (unat u) @ Buffer_from rest"
  by (cases rest) simp_all

lemma Buffer_from_header:
  "Buffer_from (js envelope_header @ doc) = map of_char envelope_header @ Buffer_from doc"
  by (simp add: envelope_header_def js_def Buffer_from_plain is_lead_surrogate_def
      is_trail_surrogate_def utf8_code_point_def)

lemma JSON_parse_empty: "JSON_parse [] = Inl SyntaxError"
  by code_simp

lemma datagrams_append: "datagrams (evs @ evs') = datagrams evs @ datagrams evs'"
  by (induction evs rule: datagrams.induct) simp_all

lemma batch_calls_append: "batch_calls (evs @ evs') = batch_calls evs @ batch_calls evs'"
  by (induction evs rule: batch_calls.induct) simp_all

lemma segment_callback_sends:
  assumes "Document seg = Some doc" and "JSON_parse doc = Inr v"
    and "get_inferred v = Inr x" and "\<not> ToBoolean x"
  shows "segment_callback cfg seg s =
           (Normal, s @ [UdpSend (Buffer_from (js envelope_header @ doc)) 0
                           (length (Buffer_from (js envelope_header @ doc))) 2000
                           (OTEL_COLLECTOR_URL cfg)])"
proof -
  from assms(2) have "doc \<noteq> []" by (auto simp: JSON_parse_empty)
  with assms show ?thesis by (simp add: segment_callback_def Let_def)
qed

lemma chunk_count_step:
  assumes "0 < k" and "0 < (m::nat)"
  shows "(m + k - 1) div k = Suc ((m - k + k - 1) div k)"
proof -
  have step: "(j + k) div k = Suc (j div k)" for j
    using assms(1) by simp
  show ?thesis
  proof (cases "k \<le> m")
    case True
    have "m + k - 1 = (m - 1) + k" using assms by simp
    moreover from True have "m - k + k - 1 = m - 1" by simp
    ultimately show ?thesis by (simp only: step)
  next
    case False
    with assms have "m + k - 1 = (m - 1) + k" and small: "(m - 1) div k = 0" by simp_all
    then have "(m + k - 1) div k = Suc 0" by (simp only: step)
    moreover from False have "m - k + k - 1 = k - 1" by simp
    moreover have "(k - 1) div k = 0" using assms by simp
    ultimately show ?thesis by simp
  qed
qed

lemma batchArray_from_chunks:
  assumes "0 < k"
  shows "\<exists>chunks. batchArray_from xs k i = Some chunks
           \<and> concat chunks = drop i xs
           \<and> (\<forall>c \<in> set chunks. c \<noteq> [] \<and> length c \<le> k)
           \<and> length chunks = (length xs - i + k - 1) div k"
proof (induction "length xs - i" arbitrary: i rule: less_induct)
  case less
  show ?case
  proof (cases "i < length xs")
    case False
    then have "batchArray_from xs k i = Some []"
      by (subst batchArray_from.simps) simp
    moreover from False assms have "(length xs - i + k - 1) div k = 0" by simp
    ultimately show ?thesis using False by simp
  next
    case True
    with assms have "length xs - (i + k) < length xs - i" by simp
    from less [OF this] obtain chunks where
      r: "batchArray_from xs k (i + k) = Some chunks"
      and c: "concat chunks = drop (i + k) xs"
      and b: "\<forall>c \<in> set chunks. c \<noteq> [] \<and> length c \<le> k"
      and n: "length chunks = (length xs - (i + k) + k - 1) div k"
      by blast
    have "batchArray_from xs k i = Some (slice xs i (i + k) # chunks)"
      using True r by (subst batchArray_from.simps) simp
    moreover have "concat (slice xs i (i + k) # chunks) = drop i xs"
    proof -
      have "take k (drop i xs) @ drop k (drop i xs) = drop i xs"
        by (rule append_take_drop_id)
      then show ?thesis by (simp add: slice_def c add.commute)
    qed
    moreover have "slice xs i (i + k) \<noteq> [] \<and> length (slice xs i (i + k)) \<le> k"
      using True assms by (simp add: slice_def)
    moreover have "length (slice xs i (i + k) # chunks) = (length xs - i + k - 1) div k"
    proof -
      from True have "0 < length xs - i" by simp
      from chunk_count_step [OF assms this] n show ?thesis by simp
    qed
    ultimately show ?thesis using b by simp
  qed
qed

lemma batchArray_5:
  "\<exists>chunks. batchArray ids 5 = Some chunks
           \<and> concat chunks = ids
           \<and> (\<forall>c \<in> set chunks. c \<noteq> [] \<and> length c \<le> 5)
           \<and> length chunks = (length ids + 4) div 5"
  using batchArray_from_chunks [of 5 ids 0] by (simp add: batchArray_def add.commute)

lemma timers_append: "timers (evs @ evs') = timers evs @ timers evs'"
  by (induction evs rule: timers.induct) simp_all

subsection \<open>Loops\<close>

lemma forEach_append:
  "forEach f (xs @ ys) s =
     (case forEach f xs s of (Normal, s') \<Rightarrow> forEach f ys s' | (c, s') \<Rightarrow> (c, s'))"
  by (induction xs arbitrary: s) (auto split: prod.splits completion.splits)

lemma forEach_stops:
  assumes "forEach f pre s = (Normal, s1)" and "f x s1 = (c, s2)" and "c \<noteq> Normal"
  shows "forEach f (pre @ x # post) s = (c, s2)"
  using assms by (cases c) (simp_all add: forEach_append)

lemma for_await_pages_after:
  "for_await body (pages_after ps rest) s =
     (case forEach body ps s of (Normal, s') \<Rightarrow> for_await body rest s' | (c, s') \<Rightarrow> (c, s'))"
  by (induction ps arbitrary: s) (auto split: prod.splits completion.splits)

lemma for_await_stops:
  assumes "forEach body before s = (Normal, s1)" and "body p s1 = (c, s2)" and "c \<noteq> Normal"
  shows "for_await body (pages_after before (Page p rest)) s = (c, s2)"
  using assms by (cases c) (simp_all add: for_await_pages_after)

lemma forEach_preserves:
  assumes "\<And>x s. obs (snd (f x s)) = obs s"
  shows "obs (snd (forEach f xs s)) = obs s"
proof (induction xs arbitrary: s)
  case Nil
  show ?case by simp
next
  case (Cons x xs)
  obtain c s' where r: "f x s = (c, s')" by (cases "f x s")
  with assms [of x s] have "obs s' = obs s" by simp
  with r Cons [of s'] show ?case by (cases c) simp_all
qed

lemma for_await_preserves:
  assumes "\<And>p s. obs (snd (body p s)) = obs s"
  shows "obs (snd (for_await body ps s)) = obs s"
proof (induction ps arbitrary: s)
  case Finished
  show ?case by simp
next
  case (Throws e)
  show ?case by simp
next
  case (Page p rest)
  obtain c s' where r: "body p s = (c, s')" by (cases "body p s")
  with assms [of p s] have "obs s' = obs s" by simp
  with r Page [of s'] show ?case by (cases c) simp_all
qed

lemma forEach_no_Diverge:
  assumes "\<And>x s. fst (f x s) \<noteq> Diverge"
  shows "fst (forEach f xs s) \<noteq> Diverge"
proof (induction xs arbitrary: s)
  case Nil
  show ?case by simp
next
  case (Cons x xs)
  obtain c s' where r: "f x s = (c, s')" by (cases "f x s")
  with assms [of x s] have "c \<noteq> Diverge" by simp
  with r Cons [of s'] show ?case by (cases c) simp_all
qed

lemma for_await_no_Diverge:
  assumes "\<And>p s. fst (body p s) \<noteq> Diverge"
  shows "fst (for_await body ps s) \<noteq> Diverge"
proof (induction ps arbitrary: s)
  case Finished
  show ?case by simp
next
  case (Throws e)
  show ?case by simp
next
  case (Page p rest)
  obtain c s' where r: "body p s = (c, s')" by (cases "body p s")
  with assms [of p s] have "c \<noteq> Diverge" by simp
  with r Page [of s'] show ?case by (cases c) simp_all
qed

subsection \<open>What each part of a cycle can do\<close>

lemma segment_callback_no_Diverge: "fst (segment_callback cfg seg s) \<noteq> Diverge"
  by (simp add: segment_callback_def Let_def split: option.splits sum.splits)

lemma sendTracesToOtelUdp_no_Diverge: "fst (sendTracesToOtelUdp cfg traceData s) \<noteq> Diverge"
  by (simp add: sendTracesToOtelUdp_def forEach_no_Diverge segment_callback_no_Diverge
      split: option.splits)

lemma traces_page_body_no_Diverge: "fst (traces_page_body cfg traces s) \<noteq> Diverge"
  by (simp add: traces_page_body_def forEach_no_Diverge sendTracesToOtelUdp_no_Diverge
      split: option.splits)

lemma batch_body_no_Diverge: "fst (batch_body cfg w batch s) \<noteq> Diverge"
  by (simp add: batch_body_def for_await_no_Diverge traces_page_body_no_Diverge)

lemma summaries_page_body_no_Diverge: "fst (summaries_page_body cfg w page s) \<noteq> Diverge"
proof (cases "traceIds_of page")
  case None
  then show ?thesis by (simp add: summaries_page_body_def)
next
  case (Some ids)
  obtain chunks where c: "batchArray ids 5 = Some chunks"
    using batchArray_5 [of ids] by blast
  let ?s1 = "s @ [ConsoleLog [Text ''Found'', Count (length ids), Text ''traces from xray'']]"
  obtain c' s2 where r: "forEach (batch_body cfg w) chunks ?s1 = (c', s2)"
    by (cases "forEach (batch_body cfg w) chunks ?s1")
  have "fst (forEach (batch_body cfg w) chunks ?s1) \<noteq> Diverge"
    by (rule forEach_no_Diverge) (rule batch_body_no_Diverge)
  with r have "c' \<noteq> Diverge" by simp
  with Some c r show ?thesis
    by (cases c') (simp_all add: summaries_page_body_def Let_def)
qed

lemma fetchTraces_try_no_Diverge: "fst (fetchTraces_try cfg w s) \<noteq> Diverge"
  by (simp add: fetchTraces_try_def for_await_no_Diverge summaries_page_body_no_Diverge
      split: prod.splits)

lemma fetchTraces_Normal: "fst (fetchTraces cfg w s) = Normal"
proof -
  obtain c s' where r: "fetchTraces_try cfg w s = (c, s')"
    by (cases "fetchTraces_try cfg w s")
  with fetchTraces_try_no_Diverge [of cfg w s] have "c \<noteq> Diverge" by simp
  with r show ?thesis by (cases c) (simp_all add: fetchTraces_def)
qed

lemma fetchTraces_catches:
  "fetchTraces_try cfg w s = (Throw e, s') \<Longrightarrow>
     fetchTraces cfg w s = (Normal, s' @ [ConsoleError [Text ''Error fetching traces:'', Thrown e]])"
  by (simp add: fetchTraces_def)

text \<open>No part of \<open>fetchTraces\<close> sets a timer.\<close>

lemma segment_callback_timers: "timers (snd (segment_callback cfg seg s)) = timers s"
  by (simp add: segment_callback_def Let_def timers_append split: option.splits sum.splits)

lemma sendTracesToOtelUdp_timers: "timers (snd (sendTracesToOtelUdp cfg traceData s)) = timers s"
  by (simp add: sendTracesToOtelUdp_def forEach_preserves [where obs = timers]
      segment_callback_timers split: option.splits)

lemma traces_page_body_timers: "timers (snd (traces_page_body cfg traces s)) = timers s"
  by (simp add: traces_page_body_def forEach_preserves [where obs = timers]
      sendTracesToOtelUdp_timers split: option.splits)

lemma batch_body_timers: "timers (snd (batch_body cfg w batch s)) = timers s"
  by (simp add: batch_body_def for_await_preserves [where obs = timers]
      traces_page_body_timers timers_append)

lemma summaries_page_body_timers: "timers (snd (summaries_page_body cfg w page s)) = timers s"
proof (cases "traceIds_of page")
  case None
  then show ?thesis by (simp add: summaries_page_body_def timers_append)
next
  case (Some ids)
  obtain chunks where c: "batchArray ids 5 = Some chunks"
    using batchArray_5 [of ids] by blast
  let ?s1 = "s @ [ConsoleLog [Text ''Found'', Count (length ids), Text ''traces from xray'']]"
  obtain c' s2 where r: "forEach (batch_body cfg w) chunks ?s1 = (c', s2)"
    by (cases "forEach (batch_body cfg w) chunks ?s1")
  have "timers (snd (forEach (batch_body cfg w) chunks ?s1)) = timers ?s1"
    by (rule forEach_preserves) (rule batch_body_timers)
  with r have "timers s2 = timers s" by (simp add: timers_append)
  with Some c r show ?thesis
    by (cases c') (simp_all add: summaries_page_body_def Let_def timers_append)
qed

lemma fetchTraces_try_timers: "timers (snd (fetchTraces_try cfg w s)) = timers s"
  by (simp add: fetchTraces_try_def for_await_preserves [where obs = timers]
      summaries_page_body_timers timers_append split: prod.splits)

lemma fetchTraces_timers: "timers (snd (fetchTraces cfg w s)) = timers s"
proof -
  obtain c s' where r: "fetchTraces_try cfg w s = (c, s')"
    by (cases "fetchTraces_try cfg w s")
  with fetchTraces_try_timers [of cfg w s] have "timers s' = timers s" by simp
  with r show ?thesis by (cases c) (simp_all add: fetchTraces_def timers_append)
qed

lemma cycle_sleeps:
  "\<exists>s'. cycle cfg w s = (Normal, s' @ [SetTimeout (POLLING_INTERVAL cfg)]) \<and> timers s' = timers s"
proof -
  let ?s0 = "s @ [ConsoleLog [Text ''Polling X-Ray for traces'']]"
  obtain c s' where r: "fetchTraces cfg w ?s0 = (c, s')"
    by (cases "fetchTraces cfg w ?s0")
  with fetchTraces_Normal [of cfg w ?s0] have c: "c = Normal" by simp
  from r fetchTraces_timers [of cfg w ?s0] have "timers s' = timers s"
    by (simp add: timers_append)
  with r c show ?thesis by (simp add: cycle_def)
qed

lemma main_keeps_running:
  "fst (main n cfg w s) = Normal
   \<and> timers (snd (main n cfg w s)) = timers s @ replicate n (POLLING_INTERVAL cfg)"
proof (induction n arbitrary: s)
  case 0
  show ?case by simp
next
  case (Suc n)
  obtain s' where c: "cycle cfg w s = (Normal, s' @ [SetTimeout (POLLING_INTERVAL cfg)])"
    and t: "timers s' = timers s"
    using cycle_sleeps [of cfg w s] by blast
  from Suc [of "s' @ [SetTimeout (POLLING_INTERVAL cfg)]"] c t show ?case
    by (simp add: timers_append replicate_append_same)
qed

subsection \<open>The batch reads of a summary page\<close>

lemma segment_callback_batch_calls:
  "batch_calls (snd (segment_callback cfg seg s)) = batch_calls s"
  by (simp add: segment_callback_def Let_def batch_calls_append split: option.splits sum.splits)

lemma sendTracesToOtelUdp_batch_calls:
  "batch_calls (snd (sendTracesToOtelUdp cfg traceData s)) = batch_calls s"
  by (simp add: sendTracesToOtelUdp_def forEach_preserves [where obs = batch_calls]
      segment_callback_batch_calls split: option.splits)

lemma traces_page_body_batch_calls:
  "batch_calls (snd (traces_page_body cfg traces s)) = batch_calls s"
  by (simp add: traces_page_body_def forEach_preserves [where obs = batch_calls]
      sendTracesToOtelUdp_batch_calls split: option.splits)

lemma batch_body_batch_calls:
  "batch_calls (snd (batch_body cfg w batch s)) = batch_calls s @ [batch]"
  by (simp add: batch_body_def for_await_preserves [where obs = batch_calls]
      traces_page_body_batch_calls batch_calls_append)

lemma forEach_batch_body_calls:
  "forEach (batch_body cfg w) batches s = (Normal, s') \<Longrightarrow>
     batch_calls s' = batch_calls s @ batches"
proof (induction batches arbitrary: s)
  case Nil
  then show ?case by simp
next
  case (Cons batch batches)
  obtain c s1 where r: "batch_body cfg w batch s = (c, s1)"
    by (cases "batch_body cfg w batch s")
  with Cons.prems have c: "c = Normal" by (cases c) simp_all
  from r batch_body_batch_calls [of cfg w batch s]
  have "batch_calls s1 = batch_calls s @ [batch]" by simp
  moreover from Cons.prems r c have "forEach (batch_body cfg w) batches s1 = (Normal, s')"
    by simp
  then have "batch_calls s' = batch_calls s1 @ batches" by (rule Cons.IH)
  ultimately show ?case by simp
qed

lemma summaries_page_body_batch_calls:
  assumes "traceIds_of page = Some ids" and "batchArray ids 5 = Some chunks"
    and "summaries_page_body cfg w page s = (Normal, s')"
  shows "batch_calls s' = batch_calls s @ chunks"
proof -
  let ?s1 = "s @ [ConsoleLog [Text ''Found'', Count (length ids), Text ''traces from xray'']]"
  obtain c s2 where r: "forEach (batch_body cfg w) chunks ?s1 = (c, s2)"
    by (cases "forEach (batch_body cfg w) chunks ?s1")
  with assms have c: "c = Normal"
    by (cases c) (simp_all add: summaries_page_body_def Let_def)
  with r have "batch_calls s2 = batch_calls ?s1 @ chunks"
    by (simp add: forEach_batch_body_calls)
  moreover from assms r c
  have "s' = s2 @ [ConsoleLog [Text ''Sent'', Count (length ids), Text ''traces to OTel'']]"
    by (simp add: summaries_page_body_def Let_def)
  ultimately show ?thesis by (simp add: batch_calls_append)
qed

lemma forEach_batch_body_calls_prefix:
  "\<exists>k\<le>length batches.
     batch_calls (snd (forEach (batch_body cfg w) batches s)) = batch_calls s @ take k batches"
proof (induction batches arbitrary: s)
  case Nil
  show ?case by simp
next
  case (Cons batch batches)
  obtain c s1 where r: "batch_body cfg w batch s = (c, s1)"
    by (cases "batch_body cfg w batch s")
  with batch_body_batch_calls [of cfg w batch s]
  have s1: "batch_calls s1 = batch_calls s @ [batch]" by simp
  show ?case
  proof (cases "c = Normal")
    case True
    from Cons [of s1] obtain k where "k \<le> length batches"
      and "batch_calls (snd (forEach (batch_body cfg w) batches s1))
             = batch_calls s1 @ take k batches"
      by blast
    with r True s1 show ?thesis
      by (intro exI [of _ "Suc k"]) simp
  next
    case False
    with r have "forEach (batch_body cfg w) (batch # batches) s = (c, s1)"
      by (cases c) simp_all
    with s1 show ?thesis
      by (intro exI [of _ "Suc 0"]) simp
  qed
qed

lemma summaries_page_body_batch_calls_prefix:
  assumes "traceIds_of page = Some ids" and "batchArray ids 5 = Some chunks"
  shows "\<exists>k\<le>length chunks.
     batch_calls (snd (summaries_page_body cfg w page s)) = batch_calls s @ take k chunks"
proof -
  let ?s1 = "s @ [ConsoleLog [Text ''Found'', Count (length ids), Text ''traces from xray'']]"
  obtain c s2 where r: "forEach (batch_body cfg w) chunks ?s1 = (c, s2)"
    by (cases "forEach (batch_body cfg w) chunks ?s1")
  from forEach_batch_body_calls_prefix [of chunks cfg w ?s1] r
  obtain k where k: "k \<le> length chunks" "batch_calls s2 = batch_calls s @ take k chunks"
    by (auto simp: batch_calls_append)
  from assms r have "batch_calls (snd (summaries_page_body cfg w page s)) = batch_calls s2"
    by (cases c) (simp_all add: summaries_page_body_def Let_def batch_calls_append)
  with k show ?thesis by auto
qed

section \<open>The claims\<close>

subsection \<open>Forwardable segments\<close>

text \<open>
  Claim C1, as amended. For every segment whose Document parses as JSON and whose read
  of \<open>.inferred\<close> gives \<open>undefined\<close> (the member is absent) or \<open>false\<close>, the
  callback hands exactly one datagram to the socket: the bytes of the fixed header line
  \<open>{"format": "json", "version": 1}\<close>, a newline, and the UTF-8 encoding of the
  Document string as it came, sent to port 2000 of the configured host. The read of
  \<open>.inferred\<close> gives a value on every parsed Document except \<open>null\<close>.
\<close>

theorem forwardable_segment_envelope:
  assumes "Document seg = Some doc"
    and "JSON_parse doc = Inr v"
    and "get_inferred v = Inr None \<or> get_inferred v = Inr (Some (JBool False))"
  shows "segment_callback cfg seg s =
           (Normal, s @ [UdpSend (Buffer_from (js envelope_header @ doc)) 0
                           (length (Buffer_from (js envelope_header @ doc))) 2000
                           (OTEL_COLLECTOR_URL cfg)])
         \<and> Buffer_from (js envelope_header @ doc) = map of_char envelope_header @ Buffer_from doc
         \<and> datagrams (snd (segment_callback cfg seg s)) =
             datagrams s @ [map of_char envelope_header @ Buffer_from doc]"
proof -
  from assms(3) obtain x where x: "get_inferred v = Inr x" "\<not> ToBoolean x"
    by auto
  have run: "segment_callback cfg seg s =
           (Normal, s @ [UdpSend (Buffer_from (js envelope_header @ doc)) 0
                           (length (Buffer_from (js envelope_header @ doc))) 2000
                           (OTEL_COLLECTOR_URL cfg)])"
    using assms(1,2) x by (rule segment_callback_sends)
  have "datagrams (snd (segment_callback cfg seg s)) =
          datagrams s @ [Buffer_from (js envelope_header @ doc)]"
    by (simp add: run datagrams_append)
  with run show ?thesis by (simp only: Buffer_from_header simp_thms)
qed

text \<open>Claim C1, an instance: a Document with \<open>"inferred": false\<close>.\<close>

theorem forwardable_segment_envelope_witness:
  \<open>Document \<lparr>Document = Some forwardable_example\<rparr> = Some forwardable_example
   \<and> JSON_parse forwardable_example
       = Inr (JObject [(js ''name'', JString (js ''api'')), (js ''inferred'', JBool False)])
   \<and> get_inferred (JObject [(js ''name'', JString (js ''api'')), (js ''inferred'', JBool False)])
       = Inr (Some (JBool False))
   \<and> datagrams (snd (segment_callback example_config \<lparr>Document = Some forwardable_example\<rparr> []))
       = [map of_char ''{"format": "json", "version": 1}\<newline>{"name": "api", "inferred": false}'']\<close>
proof -
  let ?v = "JObject [(js ''name'', JString (js ''api'')), (js ''inferred'', JBool False)]"
  have d: "Document \<lparr>Document = Some forwardable_example\<rparr> = Some forwardable_example"
    by simp
  have p: "JSON_parse forwardable_example = Inr ?v"
    by code_simp
  have i: "get_inferred ?v = Inr (Some (JBool False))"
    by code_simp
  have b: \<open>map of_char envelope_header @ Buffer_from forwardable_example
      = (map of_char ''{"format": "json", "version": 1}\<newline>{"name": "api", "inferred": false}'' :: buffer)\<close>
    by code_simp
  from forwardable_segment_envelope [OF d p disjI2 [OF i], of example_config "[]"] d p i b
  show ?thesis by simp
qed

text \<open>
  Claim C1 as first stated fails on the Document \<open>null\<close>: it parses as JSON and has no
  \<open>inferred\<close> member, but the read of \<open>.inferred\<close> throws a \<open>TypeError\<close> and
  nothing is sent.
\<close>

theorem null_document_counterexample:
  "JSON_parse (js ''null'') = Inr JNull
   \<and> segment_callback example_config \<lparr>Document = Some (js ''null'')\<rparr> [] = (Throw TypeError, [])"
  by code_simp

subsection \<open>Skipped segments\<close>

text \<open>
  Claim C2. A segment without a Document (\<open>undefined\<close>, or the empty string, which
  \<open>!trace.Document\<close> treats alike), or whose parsed Document has a truthy
  \<open>inferred\<close>, leaves the state as it was: no datagram, no other effect, no error.
\<close>

theorem skipped_segment_sends_nothing:
  assumes "Document seg = None \<or> Document seg = Some []
     \<or> (\<exists>doc v x. Document seg = Some doc \<and> JSON_parse doc = Inr v
           \<and> get_inferred v = Inr x \<and> ToBoolean x)"
  shows "segment_callback cfg seg s = (Normal, s)"
  using assms by (auto simp: segment_callback_def)

text \<open>Claim C2, two instances: \<open>"inferred": true\<close>, and a segment with no Document.\<close>

theorem skipped_segment_sends_nothing_witness:
  \<open>(Document \<lparr>Document = Some inferred_example\<rparr> = Some inferred_example
    \<and> JSON_parse inferred_example
         = Inr (JObject [(js ''inferred'', JBool True), (js ''name'', JString (js ''remote''))])
    \<and> get_inferred (JObject [(js ''inferred'', JBool True), (js ''name'', JString (js ''remote''))])
         = Inr (Some (JBool True))
    \<and> ToBoolean (Some (JBool True)))
   \<and> segment_callback example_config \<lparr>Document = Some inferred_example\<rparr> [] = (Normal, [])
   \<and> segment_callback example_config \<lparr>Document = None\<rparr> [] = (Normal, [])\<close>
proof -
  let ?v = "JObject [(js ''inferred'', JBool True), (js ''name'', JString (js ''remote''))]"
  have p: "JSON_parse inferred_example = Inr ?v"
    by code_simp
  have i: "get_inferred ?v = Inr (Some (JBool True))"
    by code_simp
  have h: "\<exists>doc v x. Document \<lparr>Document = Some inferred_example\<rparr> = Some doc
      \<and> JSON_parse doc = Inr v \<and> get_inferred v = Inr x \<and> ToBoolean x"
    using p i by (intro exI [of _ inferred_example] exI [of _ ?v] exI [of _ "Some (JBool True)"]) simp
  have "segment_callback example_config \<lparr>Document = Some inferred_example\<rparr> [] = (Normal, [])"
    by (rule skipped_segment_sends_nothing) (use h in blast)
  moreover have "segment_callback example_config \<lparr>Document = None\<rparr> [] = (Normal, [])"
    by (rule skipped_segment_sends_nothing) simp
  ultimately show ?thesis using p i by simp
qed

subsection \<open>Chunks of five\<close>

text \<open>
  Claim C3. For every list of \<open>N\<close> identifiers, \<open>batchArray\<close> with size 5 returns,
  and returns \<open>(N + 4) div 5\<close> chunks, the least whole number that is at least \<open>N / 5\<close>;
  every chunk has between one and five identifiers, and the chunks put end to end are the
  list itself, so every identifier is there once, in place. The page's loop opens one batch
  read per chunk, in that order: the batch reads a page adds to the run are always the
  first so many of the chunks, and all of them when the page's body ends normally.
\<close>

theorem batchArray_chunks_of_five:
  "\<exists>chunks. batchArray ids 5 = Some chunks
     \<and> length chunks = (length ids + 4) div 5
     \<and> (\<forall>c \<in> set chunks. c \<noteq> [] \<and> length c \<le> 5)
     \<and> concat chunks = ids
     \<and> (\<forall>cfg w page s. traceIds_of page = Some ids \<longrightarrow>
           (\<exists>k\<le>length chunks.
              batch_calls (snd (summaries_page_body cfg w page s)) = batch_calls s @ take k chunks))
     \<and> (\<forall>cfg w page s s'.
           traceIds_of page = Some ids \<longrightarrow> summaries_page_body cfg w page s = (Normal, s') \<longrightarrow>
           batch_calls s' = batch_calls s @ chunks)"
proof -
  obtain chunks where c: "batchArray ids 5 = Some chunks" "concat chunks = ids"
    "\<forall>c \<in> set chunks. c \<noteq> [] \<and> length c \<le> 5" "length chunks = (length ids + 4) div 5"
    using batchArray_5 [of ids] by blast
  have normal: "batch_calls s' = batch_calls s @ chunks"
    if "traceIds_of page = Some ids" "summaries_page_body cfg w page s = (Normal, s')"
    for cfg w page s s'
    using that(1) c(1) that(2) by (rule summaries_page_body_batch_calls)
  have always: "\<exists>k\<le>length chunks.
      batch_calls (snd (summaries_page_body cfg w page s)) = batch_calls s @ take k chunks"
    if "traceIds_of page = Some ids" for cfg w page s
    using that c(1) by (rule summaries_page_body_batch_calls_prefix)
  from c normal always show ?thesis by blast
qed

text \<open>Claim C3, an instance: seven identifiers go out as five and two.\<close>

theorem batchArray_chunks_of_five_witness:
  "batchArray seven_ids 5
     = Some [[js ''1-a'', js ''1-b'', js ''1-c'', js ''1-d'', js ''1-e''], [js ''1-f'', js ''1-g'']]
   \<and> length [[js ''1-a'', js ''1-b'', js ''1-c'', js ''1-d'', js ''1-e''], [js ''1-f'', js ''1-g'']]
       = (length seven_ids + 4) div 5
   \<and> traceIds_of seven_page = Some seven_ids
   \<and> fst (summaries_page_body example_config quiet_world seven_page []) = Normal
   \<and> batch_calls (snd (summaries_page_body example_config quiet_world seven_page []))
       = [[js ''1-a'', js ''1-b'', js ''1-c'', js ''1-d'', js ''1-e''], [js ''1-f'', js ''1-g'']]"
proof -
  let ?chunks = "[[js ''1-a'', js ''1-b'', js ''1-c'', js ''1-d'', js ''1-e''], [js ''1-f'', js ''1-g'']]"
  let ?run = "summaries_page_body example_config quiet_world seven_page []"
  have b: "batchArray seven_ids 5 = Some ?chunks"
    by code_simp
  have t: "traceIds_of seven_page = Some seven_ids"
    by code_simp
  have n: "fst ?run = Normal"
    by code_simp
  then have r: "?run = (Normal, snd ?run)"
    by (metis prod.collapse)
  from batchArray_chunks_of_five [of seven_ids] b
  have "length ?chunks = (length seven_ids + 4) div 5"
    and "\<And>cfg w page s s'. traceIds_of page = Some seven_ids \<Longrightarrow>
           summaries_page_body cfg w page s = (Normal, s') \<Longrightarrow>
           batch_calls s' = batch_calls s @ ?chunks"
    by auto
  from this(1) this(2) [OF t r] b t n show ?thesis by simp
qed

subsection \<open>A malformed Document\<close>

text \<open>
  Claim C4, as amended. A segment whose Document is not empty and is not valid JSON makes
  \<open>JSON.parse\<close> throw inside the callback, and nothing catches the error before the
  \<open>catch\<close> of \<open>fetchTraces\<close>. Wherever the segment sits in the cycle, with the
  pages, batches, traces and segments before it processed normally, the error ends the
  \<open>forEach\<close> over its trace's segments and leaves \<open>sendTracesToOtelUdp\<close>, ends the
  loops over the traces, the result pages, the batches and the summary pages, is logged
  by the \<open>catch\<close>, and \<open>fetchTraces\<close> returns normally. The state is the one the
  segments before it have left, with the log line added: whatever comes after the segment
  in its trace, batch or cycle is not processed.
\<close>

theorem malformed_document_ends_the_cycle:
  assumes window: "time_window cfg (clock w s) = (StartTime, EndTime)"
    and summaries: "paginateGetTraceSummaries w s StartTime EndTime (FILTER_EXPRESSION cfg)
           = pages_after pages_before (Page page pages_rest)"
    and pages_before: "forEach (summaries_page_body cfg w) pages_before
           (s @ [GetTraceSummaries StartTime EndTime (FILTER_EXPRESSION cfg)]) = (Normal, s1)"
    and ids: "traceIds_of page = Some ids"
    and batches: "batchArray ids 5 = Some (batches_before @ batch # batches_rest)"
    and batches_before: "forEach (batch_body cfg w) batches_before
           (s1 @ [ConsoleLog [Text ''Found'', Count (length ids), Text ''traces from xray'']])
           = (Normal, s2)"
    and traces: "paginateBatchGetTraces w s2 batch
           = pages_after results_before (Page result results_rest)"
    and results_before: "forEach (traces_page_body cfg) results_before
           (s2 @ [BatchGetTraces batch]) = (Normal, s3)"
    and result: "Traces result = Some (traces_before @ traceData # traces_rest)"
    and traces_before: "forEach (sendTracesToOtelUdp cfg) traces_before s3 = (Normal, s4)"
    and segments: "Segments traceData = Some (segments_before @ bad # segments_rest)"
    and segments_before: "forEach (segment_callback cfg) segments_before s4 = (Normal, s5)"
    and bad: "Document bad = Some doc" "doc \<noteq> []" "JSON_parse doc = Inl e"
  shows "sendTracesToOtelUdp cfg traceData s4 = (Throw e, s5)
     \<and> fetchTraces cfg w s
         = (Normal, s5 @ [ConsoleError [Text ''Error fetching traces:'', Thrown e]])"
proof -
  from bad have "segment_callback cfg bad s5 = (Throw e, s5)"
    by (simp add: segment_callback_def)
  with segments_before
  have "forEach (segment_callback cfg) (segments_before @ bad # segments_rest) s4 = (Throw e, s5)"
    by (rule forEach_stops) simp
  with segments have trace: "sendTracesToOtelUdp cfg traceData s4 = (Throw e, s5)"
    by (simp add: sendTracesToOtelUdp_def)
  with traces_before
  have "forEach (sendTracesToOtelUdp cfg) (traces_before @ traceData # traces_rest) s3
      = (Throw e, s5)"
    by (rule forEach_stops) simp
  with result have "traces_page_body cfg result s3 = (Throw e, s5)"
    by (simp add: traces_page_body_def)
  with results_before
  have "for_await (traces_page_body cfg) (pages_after results_before (Page result results_rest))
      (s2 @ [BatchGetTraces batch]) = (Throw e, s5)"
    by (rule for_await_stops) simp
  with traces have "batch_body cfg w batch s2 = (Throw e, s5)"
    by (simp add: batch_body_def)
  with batches_before
  have "forEach (batch_body cfg w) (batches_before @ batch # batches_rest)
      (s1 @ [ConsoleLog [Text ''Found'', Count (length ids), Text ''traces from xray'']])
      = (Throw e, s5)"
    by (rule forEach_stops) simp
  with ids batches have "summaries_page_body cfg w page s1 = (Throw e, s5)"
    by (simp add: summaries_page_body_def)
  with pages_before
  have "for_await (summaries_page_body cfg w) (pages_after pages_before (Page page pages_rest))
      (s @ [GetTraceSummaries StartTime EndTime (FILTER_EXPRESSION cfg)]) = (Throw e, s5)"
    by (rule for_await_stops) simp
  with window summaries have "fetchTraces_try cfg w s = (Throw e, s5)"
    by (simp add: fetchTraces_try_def)
  then have "fetchTraces cfg w s
      = (Normal, s5 @ [ConsoleError [Text ''Error fetching traces:'', Thrown e]])"
    by (rule fetchTraces_catches)
  with trace show ?thesis by simp
qed

text \<open>Claim C4, an instance: the trace of \<open>malformed_world\<close>.\<close>

theorem malformed_document_ends_the_cycle_witness:
  \<open>JSON_parse (js ''{"id": 2'') = Inl SyntaxError
   \<and> forEach (segment_callback example_config) [\<lparr>Document = Some (js ''{"id": 1}'')\<rparr>]
         [GetTraceSummaries (Date 1699999990000) (Date 1700000000000) None,
          ConsoleLog [Text ''Found'', Count 1, Text ''traces from xray''],
          BatchGetTraces [js ''1-a'']]
       = (Normal,
          [GetTraceSummaries (Date 1699999990000) (Date 1700000000000) None,
           ConsoleLog [Text ''Found'', Count 1, Text ''traces from xray''],
           BatchGetTraces [js ''1-a''],
           UdpSend (map of_char ''{"format": "json", "version": 1}\<newline>{"id": 1}'') 0 42 2000
             (js ''127.0.0.1'')])
   \<and> fetchTraces example_config malformed_world []
       = (Normal,
          [GetTraceSummaries (Date 1699999990000) (Date 1700000000000) None,
           ConsoleLog [Text ''Found'', Count 1, Text ''traces from xray''],
           BatchGetTraces [js ''1-a''],
           UdpSend (map of_char ''{"format": "json", "version": 1}\<newline>{"id": 1}'') 0 42 2000
             (js ''127.0.0.1''),
           ConsoleError [Text ''Error fetching traces:'', Thrown SyntaxError]])\<close>
proof -
  let ?seg1 = \<open>\<lparr>Document = Some (js ''{"id": 1}'')\<rparr>\<close>
  let ?seg2 = \<open>\<lparr>Document = Some (js ''{"id": 2'')\<rparr>\<close>
  let ?seg3 = \<open>\<lparr>Document = Some (js ''{"id": 3}'')\<rparr>\<close>
  let ?trace = "\<lparr>Segments = Some ([?seg1] @ ?seg2 # [?seg3])\<rparr>"
  let ?result = "\<lparr>Traces = Some ([] @ ?trace # [])\<rparr>"
  let ?page = "\<lparr>TraceSummaries = Some [\<lparr>Id' = Some (js ''1-a'')\<rparr>]\<rparr>"
  let ?s1 = "[GetTraceSummaries (Date 1699999990000) (Date 1700000000000) None]"
  let ?s2 = "?s1 @ [ConsoleLog [Text ''Found'', Count 1, Text ''traces from xray'']]"
  let ?s3 = "?s2 @ [BatchGetTraces [js ''1-a'']]"
  let ?s5 = \<open>?s3 @ [UdpSend (map of_char ''{"format": "json", "version": 1}\<newline>{"id": 1}'') 0 42 2000
                       (js ''127.0.0.1'')]\<close>
  have window: "time_window example_config (clock malformed_world [])
      = (Date 1699999990000, Date 1700000000000)"
    by code_simp
  have summaries: "paginateGetTraceSummaries malformed_world [] (Date 1699999990000)
      (Date 1700000000000) (FILTER_EXPRESSION example_config)
      = pages_after [] (Page ?page Finished)"
    by code_simp
  have pages_before: "forEach (summaries_page_body example_config malformed_world) []
      ([] @ [GetTraceSummaries (Date 1699999990000) (Date 1700000000000)
               (FILTER_EXPRESSION example_config)]) = (Normal, ?s1)"
    by (simp add: example_config_def)
  have ids: "traceIds_of ?page = Some [js ''1-a'']"
    by code_simp
  have batches: "batchArray [js ''1-a''] 5 = Some ([] @ [js ''1-a''] # [])"
    by code_simp
  have batches_before: "forEach (batch_body example_config malformed_world) []
      (?s1 @ [ConsoleLog [Text ''Found'', Count (length [js ''1-a'']), Text ''traces from xray'']])
      = (Normal, ?s2)"
    by simp
  have traces: "paginateBatchGetTraces malformed_world ?s2 [js ''1-a'']
      = pages_after [] (Page ?result Finished)"
    by (simp add: malformed_world_def)
  have results_before: "forEach (traces_page_body example_config) []
      (?s2 @ [BatchGetTraces [js ''1-a'']]) = (Normal, ?s3)"
    by simp
  have result: "Traces ?result = Some ([] @ ?trace # [])"
    by simp
  have traces_before: "forEach (sendTracesToOtelUdp example_config) [] ?s3 = (Normal, ?s3)"
    by simp
  have segments: "Segments ?trace = Some ([?seg1] @ ?seg2 # [?seg3])"
    by simp
  have segments_before: "forEach (segment_callback example_config) [?seg1] ?s3 = (Normal, ?s5)"
    by code_simp
  have bad: \<open>Document ?seg2 = Some (js ''{"id": 2'')\<close> \<open>js ''{"id": 2'' \<noteq> []\<close>
    \<open>JSON_parse (js ''{"id": 2'') = Inl SyntaxError\<close>
    by (simp, simp add: js_def, code_simp)
  from malformed_document_ends_the_cycle [OF window summaries pages_before ids batches
      batches_before traces results_before result traces_before segments segments_before bad]
    segments_before bad(3)
  show ?thesis by simp
qed

text \<open>
  Claim C4 as first stated fails on a trace of three segments whose second Document is cut
  short: the first segment is sent, the error is logged by the \<open>catch\<close> of
  \<open>fetchTraces\<close>, and the third segment, whose Document is valid, is never sent.
\<close>

theorem malformed_document_counterexample:
  \<open>JSON_parse (js ''{"id": 2'') = Inl SyntaxError
   \<and> JSON_parse (js ''{"id": 3}'') = Inr (JObject [(js ''id'', JNumber 3)])
   \<and> fst (fetchTraces example_config malformed_world []) = Normal
   \<and> datagrams (snd (fetchTraces example_config malformed_world []))
       = [map of_char ''{"format": "json", "version": 1}\<newline>{"id": 1}'']
   \<and> last (snd (fetchTraces example_config malformed_world []))
       = ConsoleError [Text ''Error fetching traces:'', Thrown SyntaxError]\<close>
  by code_simp

subsection \<open>A summary read that fails on its second page\<close>

text \<open>
  Claim C5, as amended. A page of summaries is processed before the next one is read. When
  the summary read yields a first page and throws in place of a second, the second is only
  asked for once the body of the loop has ended normally on the first; by then every chunk
  of the first page's identifiers has been passed to a batch read, in order. The error is
  then logged and \<open>fetchTraces\<close> returns normally.
\<close>

theorem first_page_fetched_before_second_page_throws:
  assumes "time_window cfg (clock w s) = (StartTime, EndTime)"
    and "paginateGetTraceSummaries w s StartTime EndTime (FILTER_EXPRESSION cfg)
           = Page page (Throws e)"
    and "traceIds_of page = Some ids"
    and "summaries_page_body cfg w page
           (s @ [GetTraceSummaries StartTime EndTime (FILTER_EXPRESSION cfg)]) = (Normal, s')"
  shows "fetchTraces cfg w s
           = (Normal, s' @ [ConsoleError [Text ''Error fetching traces:'', Thrown e]])
     \<and> (\<exists>chunks. batchArray ids 5 = Some chunks \<and> concat chunks = ids
           \<and> batch_calls s' = batch_calls s @ chunks)"
proof -
  from assms(1,2,4) have "fetchTraces_try cfg w s = (Throw e, s')"
    by (simp add: fetchTraces_try_def)
  then have "fetchTraces cfg w s
      = (Normal, s' @ [ConsoleError [Text ''Error fetching traces:'', Thrown e]])"
    by (rule fetchTraces_catches)
  moreover obtain chunks where c: "batchArray ids 5 = Some chunks" "concat chunks = ids"
    using batchArray_5 [of ids] by blast
  moreover from assms(3) c(1) assms(4)
  have "batch_calls s' = batch_calls (s @ [GetTraceSummaries StartTime EndTime (FILTER_EXPRESSION cfg)]) @ chunks"
    by (rule summaries_page_body_batch_calls)
  ultimately show ?thesis by (simp add: batch_calls_append)
qed

text \<open>Claim C5, an instance: the run of \<open>throttled_world\<close>.\<close>

theorem first_page_fetched_before_second_page_throws_witness:
  "time_window example_config (clock throttled_world [])
     = (Date 1699999990000, Date 1700000000000)
   \<and> paginateGetTraceSummaries throttled_world [] (Date 1699999990000) (Date 1700000000000)
       (FILTER_EXPRESSION example_config)
     = Page \<lparr>TraceSummaries = Some [\<lparr>Id' = Some (js ''1-a'')\<rparr>]\<rparr>
         (Throws (ServiceException (js ''ThrottledException'')))
   \<and> traceIds_of \<lparr>TraceSummaries = Some [\<lparr>Id' = Some (js ''1-a'')\<rparr>]\<rparr> = Some [js ''1-a'']
   \<and> fst (summaries_page_body example_config throttled_world
            \<lparr>TraceSummaries = Some [\<lparr>Id' = Some (js ''1-a'')\<rparr>]\<rparr>
            [GetTraceSummaries (Date 1699999990000) (Date 1700000000000)
               (FILTER_EXPRESSION example_config)]) = Normal
   \<and> batchArray [js ''1-a''] 5 = Some [[js ''1-a'']]
   \<and> batch_calls (snd (fetchTraces example_config throttled_world [])) = [[js ''1-a'']]"
proof -
  let ?page = "\<lparr>TraceSummaries = Some [\<lparr>Id' = Some (js ''1-a'')\<rparr>]\<rparr>"
  let ?s0 = "[GetTraceSummaries (Date 1699999990000) (Date 1700000000000)
                (FILTER_EXPRESSION example_config)]"
  let ?run = "summaries_page_body example_config throttled_world ?page ?s0"
  have w: "time_window example_config (clock throttled_world [])
      = (Date 1699999990000, Date 1700000000000)"
    by code_simp
  have p: "paginateGetTraceSummaries throttled_world [] (Date 1699999990000)
      (Date 1700000000000) (FILTER_EXPRESSION example_config)
      = Page ?page (Throws (ServiceException (js ''ThrottledException'')))"
    by code_simp
  have i: "traceIds_of ?page = Some [js ''1-a'']"
    by code_simp
  have n: "fst ?run = Normal"
    by code_simp
  then have r: "summaries_page_body example_config throttled_world ?page ([] @ ?s0)
      = (Normal, snd ?run)"
    by (simp add: prod_eq_iff)
  have b: "batchArray [js ''1-a''] 5 = Some [[js ''1-a'']]"
    by code_simp
  have c: "batch_calls (snd (fetchTraces example_config throttled_world [])) = [[js ''1-a'']]"
    using first_page_fetched_before_second_page_throws [OF w p i r] b
    by (auto simp: batch_calls_append)
  from w p i n b c show ?thesis by simp
qed

text \<open>
  Claim C5 as first stated fails on a summary read that gives one page with one identifier
  and then throws: the identifier has gone to a batch read, and the segment that read
  returned has been sent, before the error is logged.
\<close>

theorem first_page_fetched_counterexample:
  "paginateGetTraceSummaries throttled_world [] (Date 1699999990000) (Date 1700000000000) None
     = Page \<lparr>TraceSummaries = Some [\<lparr>Id' = Some (js ''1-a'')\<rparr>]\<rparr>
         (Throws (ServiceException (js ''ThrottledException'')))
   \<and> batch_calls (snd (fetchTraces example_config throttled_world [])) = [[js ''1-a'']]
   \<and> length (datagrams (snd (fetchTraces example_config throttled_world []))) = 1
   \<and> last (snd (fetchTraces example_config throttled_world []))
       = ConsoleError [Text ''Error fetching traces:'',
                       Thrown (ServiceException (js ''ThrottledException''))]"
  by code_simp

subsection \<open>Errors stay inside the cycle\<close>

text \<open>
  Claim C6. Whatever is thrown inside the \<open>try\<close> block of \<open>fetchTraces\<close>, by a
  paginator, by \<open>JSON.parse\<close> or by the read of \<open>.inferred\<close>, is caught and logged,
  and \<open>fetchTraces\<close> returns normally from every state. Every pass of the loop of
  \<open>main\<close> therefore reaches its \<open>setTimeout\<close>, the loop is still running after any
  number of passes, each pass having set one timer of the polling interval, and once the
  configuration is there the module does not end with an error.
\<close>

theorem errors_in_a_cycle_are_swallowed:
  "(fetchTraces_try cfg w s = (Throw e, s') \<longrightarrow>
      fetchTraces cfg w s
        = (Normal, s' @ [ConsoleError [Text ''Error fetching traces:'', Thrown e]]))
   \<and> fst (fetchTraces cfg w s) = Normal
   \<and> (\<exists>s''. cycle cfg w s = (Normal, s'' @ [SetTimeout (POLLING_INTERVAL cfg)]))
   \<and> fst (main n cfg w s) = Normal
   \<and> timers (snd (main n cfg w s)) = timers s @ replicate n (POLLING_INTERVAL cfg)
   \<and> (startup env = Inr cfg \<longrightarrow> fst (program n env w) = Normal)"
proof -
  have "fst (program n env w) = Normal" if "startup env = Inr cfg"
  proof -
    obtain c s1 where r: "main n cfg w [] = (c, s1)" by (cases "main n cfg w []")
    with main_keeps_running [of n cfg w "[]"] have "c = Normal" by simp
    with r that show ?thesis by (simp add: program_def)
  qed
  moreover have "\<exists>s''. cycle cfg w s = (Normal, s'' @ [SetTimeout (POLLING_INTERVAL cfg)])"
    using cycle_sleeps [of cfg w s] by blast
  ultimately show ?thesis
    using main_keeps_running [of n cfg w s] fetchTraces_Normal [of cfg w s]
    by (simp add: fetchTraces_catches)
qed

text \<open>Claim C6, an instance: three passes against \<open>throttled_world\<close>.\<close>

theorem errors_in_a_cycle_are_swallowed_witness:
  "fst (fetchTraces_try example_config throttled_world [])
     = Throw (ServiceException (js ''ThrottledException''))
   \<and> fetchTraces example_config throttled_world []
       = (Normal, snd (fetchTraces_try example_config throttled_world [])
                    @ [ConsoleError [Text ''Error fetching traces:'',
                                     Thrown (ServiceException (js ''ThrottledException''))]])
   \<and> fst (main 3 example_config throttled_world []) = Normal
   \<and> timers (snd (main 3 example_config throttled_world []))
       = [Finite 10000, Finite 10000, Finite 10000]
   \<and> startup (example_env\<lparr>env_POLLING_INTERVAL_SECONDS_times_1000 := Finite 10000\<rparr>)
       = Inr example_config
   \<and> fst (program 3 (example_env\<lparr>env_POLLING_INTERVAL_SECONDS_times_1000 := Finite 10000\<rparr>)
             throttled_world) = Normal"
proof -
  let ?e = "ServiceException (js ''ThrottledException'')"
  let ?env = "example_env\<lparr>env_POLLING_INTERVAL_SECONDS_times_1000 := Finite 10000\<rparr>"
  have t: "fst (fetchTraces_try example_config throttled_world []) = Throw ?e"
    by code_simp
  then have t': "fetchTraces_try example_config throttled_world []
      = (Throw ?e, snd (fetchTraces_try example_config throttled_world []))"
    by (simp add: prod_eq_iff)
  have u: "startup ?env = Inr example_config"
    by code_simp
  note inst = errors_in_a_cycle_are_swallowed
    [of example_config throttled_world "[]" ?e
        "snd (fetchTraces_try example_config throttled_world [])" 3 ?env]
  from inst t' have c1: "fetchTraces example_config throttled_world []
      = (Normal, snd (fetchTraces_try example_config throttled_world [])
                   @ [ConsoleError [Text ''Error fetching traces:'', Thrown ?e]])"
    by blast
  from inst have c4: "fst (main 3 example_config throttled_world []) = Normal"
    by blast
  from inst have "timers (snd (main 3 example_config throttled_world []))
      = timers [] @ replicate 3 (POLLING_INTERVAL example_config)"
    by blast
  then have c5: "timers (snd (main 3 example_config throttled_world []))
      = [Finite 10000, Finite 10000, Finite 10000]"
    by (simp add: example_config_def numeral_3_eq_3)
  from inst u have c6: "fst (program 3 ?env throttled_world) = Normal"
    by blast
  from t c1 c4 c5 u c6 show ?thesis
    by (intro conjI)
qed

subsection \<open>The collector address is required\<close>

text \<open>
  Claim C7. Without \<open>OTEL_COLLECTOR_URL\<close>, or with an empty one, the module throws
  \<open>Error("OTEL_COLLECTOR_URL environment variable is required")\<close> before anything
  else has happened: no pass of the loop, no event. With a non-empty one the
  configuration is fixed and nothing is thrown.
\<close>

theorem collector_url_is_required:
  "(env_OTEL_COLLECTOR_URL env = None \<or> env_OTEL_COLLECTOR_URL env = Some [] \<longrightarrow>
      startup env = Inl (Error (js ''OTEL_COLLECTOR_URL environment variable is required''))
      \<and> program n env w
          = (Throw (Error (js ''OTEL_COLLECTOR_URL environment variable is required'')), []))
   \<and> (env_OTEL_COLLECTOR_URL env = Some url \<and> url \<noteq> [] \<longrightarrow>
        startup env = Inr \<lparr>POLLING_INTERVAL = polling_interval env,
                           OTEL_COLLECTOR_URL = url,
                           FILTER_EXPRESSION = env_FILTER_EXPRESSION env\<rparr>)"
  by (auto simp: startup_def program_def)

text \<open>Claim C7, two instances: the variable unset, and set.\<close>

theorem collector_url_is_required_witness:
  "env_OTEL_COLLECTOR_URL no_collector_env = None
   \<and> startup no_collector_env
       = Inl (Error (js ''OTEL_COLLECTOR_URL environment variable is required''))
   \<and> program 3 no_collector_env throttled_world
       = (Throw (Error (js ''OTEL_COLLECTOR_URL environment variable is required'')), [])
   \<and> env_OTEL_COLLECTOR_URL example_env = Some (js ''127.0.0.1'')
   \<and> js ''127.0.0.1'' \<noteq> []
   \<and> startup example_env = Inr \<lparr>POLLING_INTERVAL = Finite 30000,
                                 OTEL_COLLECTOR_URL = js ''127.0.0.1'',
                                 FILTER_EXPRESSION = None\<rparr>"
proof -
  have a: "env_OTEL_COLLECTOR_URL no_collector_env = None"
    by (simp add: no_collector_env_def)
  have b: "env_OTEL_COLLECTOR_URL example_env = Some (js ''127.0.0.1'')"
    and c: "js ''127.0.0.1'' \<noteq> []"
    and d: "polling_interval example_env = Finite 30000"
    and e: "env_FILTER_EXPRESSION example_env = None"
    by (simp_all add: example_env_def js_def polling_interval_def)
  from collector_url_is_required [of no_collector_env 3 throttled_world] a
    collector_url_is_required [of example_env 3 throttled_world "js ''127.0.0.1''"] b c d e
  show ?thesis by simp
qed

subsection \<open>The time window\<close>

text \<open>
  Claim C8, as amended. \<open>StartTime\<close> is the double \<open>EndTime.getTime() - POLLING_INTERVAL\<close>
  with its fraction cut off. When the polling interval is a finite Number \<open>p\<close> and
  \<open>now - p\<close> is a time a \<open>Date\<close> can hold, the window of the cycle is
  \<open>(start, now)\<close> with \<open>now - start\<close> between \<open>p\<close> rounded down and \<open>p\<close> rounded
  up: it is the polling interval exactly when that is a whole number of milliseconds, and
  one of its two whole neighbours otherwise. The start is before the end whenever the
  interval is at least one millisecond, and never when the interval is zero or negative.
  For an interval between the two and a clock after the epoch, the start is before the
  end exactly when the subtraction does not round back to the clock's reading; with the
  clock between \<open>2 ^ 40\<close> and \<open>2 ^ 41\<close> ms (November 2004 to September 2039), that is
  exactly when the interval is more than \<open>2 ^ -13\<close> ms. This window is the one the
  summary read of the cycle is opened with.
\<close>

theorem time_window_of_a_cycle:
  assumes "POLLING_INTERVAL cfg = Finite p" and "\<bar>of_int now - p\<bar> \<le> 8640000000000000"
  shows "\<exists>start. time_window cfg now = (Date start, Date now)
     \<and> \<lfloor>p\<rfloor> \<le> now - start \<and> now - start \<le> \<lceil>p\<rceil>
     \<and> (of_int (now - start) = p) = (p \<in> \<int>)
     \<and> (1 \<le> p \<longrightarrow> date_less (Date start) (Date now))
     \<and> (p \<le> 0 \<longrightarrow> \<not> date_less (Date start) (Date now))
     \<and> (0 < p \<and> 0 < now \<longrightarrow>
           date_less (Date start) (Date now)
             = (minus_number (Finite (of_int now)) (Finite p) \<noteq> Finite (of_int now)))
     \<and> (0 < p \<and> 2 ^ 40 < now \<and> now < 2 ^ 41 \<longrightarrow>
           date_less (Date start) (Date now) = (1 / 2 ^ 13 < p))
     \<and> (\<forall>w s. clock w s = now \<longrightarrow>
           fetchTraces_try cfg w s =
             for_await (summaries_page_body cfg w)
               (paginateGetTraceSummaries w s (Date start) (Date now) (FILTER_EXPRESSION cfg))
               (s @ [GetTraceSummaries (Date start) (Date now) (FILTER_EXPRESSION cfg)]))"
proof -
  from time_window_start [OF assms] obtain y where
    sub: "minus_number (Finite (of_int now)) (Finite p) = Finite y"
    and lo: "of_int \<lfloor>of_int now - p\<rfloor> \<le> y" and hi: "y \<le> of_int \<lceil>of_int now - p\<rceil>"
    and win: "time_window cfg now = (Date (ToInteger y), Date now)"
    by blast
  define start where "start = ToInteger y"
  have fl: "\<lfloor>of_int now - p\<rfloor> = now - \<lceil>p\<rceil>"
    using ceiling_correct [of p] by (intro floor_unique) simp_all
  have ce: "\<lceil>of_int now - p\<rceil> = now - \<lfloor>p\<rfloor>"
    using floor_correct [of p] by (intro ceiling_unique) simp_all
  from lo have "\<lfloor>of_int now - p\<rfloor> \<le> \<lfloor>y\<rfloor>" by (simp only: le_floor_iff)
  moreover from hi have "\<lceil>y\<rceil> \<le> \<lceil>of_int now - p\<rceil>" by (simp only: ceiling_le_iff)
  moreover note ToInteger_bounds [of y]
  ultimately have "now - \<lceil>p\<rceil> \<le> start" "start \<le> now - \<lfloor>p\<rfloor>"
    by (simp_all add: start_def fl ce)
  then have bounds: "\<lfloor>p\<rfloor> \<le> now - start" "now - start \<le> \<lceil>p\<rceil>"
    by simp_all
  have whole: "(of_int (now - start) = p) = (p \<in> \<int>)"
  proof
    assume "of_int (now - start) = p"
    then have "p = of_int (now - start)" by (rule sym)
    then show "p \<in> \<int>" by (simp only: Ints_of_int)
  next
    assume "p \<in> \<int>"
    then obtain k where k: "p = of_int k" by (auto elim: Ints_cases)
    with bounds have "now - start = k" by simp
    with k show "of_int (now - start) = p" by simp
  qed
  have long: "start < now" if "1 \<le> p"
  proof -
    from that have "1 \<le> \<lfloor>p\<rfloor>" by (simp add: le_floor_iff)
    with bounds(1) show ?thesis by linarith
  qed
  have none: "\<not> start < now" if "p \<le> 0"
  proof -
    from that have "\<lceil>p\<rceil> \<le> 0" by (simp add: ceiling_le_iff)
    with bounds(2) show ?thesis by linarith
  qed
  have short: "(start < now) = (y \<noteq> of_int now)" if "0 < p" "0 < now"
  proof
    assume "start < now"
    then show "y \<noteq> of_int now" by (auto simp: start_def ToInteger_of_int)
  next
    assume ne: "y \<noteq> of_int now"
    from that(1) have "\<lceil>of_int now - p\<rceil> \<le> now" by (simp add: ceiling_le_iff)
    then have "(of_int \<lceil>of_int now - p\<rceil> :: rat) \<le> of_int now" by (simp only: of_int_le_iff)
    with hi have "y \<le> of_int now" by linarith
    with ne have less: "y < of_int now" by simp
    show "start < now"
    proof (cases "0 \<le> y")
      case True
      with less show ?thesis by (simp add: start_def ToInteger_def floor_less_iff)
    next
      case False
      then have "\<lceil>y\<rceil> \<le> 0" by (simp add: ceiling_le_iff)
      with that(2) have "\<lceil>y\<rceil> < now" by linarith
      with False show ?thesis by (simp only: start_def ToInteger_def if_False)
    qed
  qed
  have today: "(start < now) = (1 / 2 ^ 13 < p)" if "0 < p" "2 ^ 40 < now" "now < 2 ^ 41"
  proof (cases "p < 1")
    case True
    from that(2) have "0 < now" by simp
    with that(1) have "(start < now) = (y \<noteq> of_int now)" by (rule short)
    also from minus_number_absorbs [OF that(2,3,1) True] sub
    have "(y = of_int now) = (p \<le> 1 / 2 ^ 13)" by simp
    finally show ?thesis by auto
  next
    case False
    then have "1 \<le> p" by simp
    then have "start < now" by (rule long)
    moreover from \<open>1 \<le> p\<close> have "1 / 2 ^ 13 < p" by simp
    ultimately show ?thesis by simp
  qed
  have window: "time_window cfg now = (Date start, Date now)"
    using win by (simp add: start_def)
  have "time_window cfg now = (Date start, Date now)
     \<and> \<lfloor>p\<rfloor> \<le> now - start \<and> now - start \<le> \<lceil>p\<rceil>
     \<and> (of_int (now - start) = p) = (p \<in> \<int>)
     \<and> (1 \<le> p \<longrightarrow> date_less (Date start) (Date now))
     \<and> (p \<le> 0 \<longrightarrow> \<not> date_less (Date start) (Date now))
     \<and> (0 < p \<and> 0 < now \<longrightarrow>
           date_less (Date start) (Date now)
             = (minus_number (Finite (of_int now)) (Finite p) \<noteq> Finite (of_int now)))
     \<and> (0 < p \<and> 2 ^ 40 < now \<and> now < 2 ^ 41 \<longrightarrow>
           date_less (Date start) (Date now) = (1 / 2 ^ 13 < p))
     \<and> (\<forall>w s. clock w s = now \<longrightarrow>
           fetchTraces_try cfg w s =
             for_await (summaries_page_body cfg w)
               (paginateGetTraceSummaries w s (Date start) (Date now) (FILTER_EXPRESSION cfg))
               (s @ [GetTraceSummaries (Date start) (Date now) (FILTER_EXPRESSION cfg)]))"
  proof (intro conjI impI allI)
    show "time_window cfg now = (Date start, Date now)" by (rule window)
    show "\<lfloor>p\<rfloor> \<le> now - start" "now - start \<le> \<lceil>p\<rceil>" by (rule bounds)+
    show "(of_int (now - start) = p) = (p \<in> \<int>)" by (rule whole)
    show "date_less (Date start) (Date now)" if "1 \<le> p"
      using long [OF that] by simp
    show "\<not> date_less (Date start) (Date now)" if "p \<le> 0"
      using none [OF that] by simp
    show "date_less (Date start) (Date now)
        = (minus_number (Finite (of_int now)) (Finite p) \<noteq> Finite (of_int now))"
      if "0 < p \<and> 0 < now"
      using short [of] that sub by simp
    show "date_less (Date start) (Date now) = (1 / 2 ^ 13 < p)"
      if "0 < p \<and> 2 ^ 40 < now \<and> now < 2 ^ 41"
      using today that by simp
    show "fetchTraces_try cfg w s =
             for_await (summaries_page_body cfg w)
               (paginateGetTraceSummaries w s (Date start) (Date now) (FILTER_EXPRESSION cfg))
               (s @ [GetTraceSummaries (Date start) (Date now) (FILTER_EXPRESSION cfg)])"
      if "clock w s = now" for w s
      using that window by (simp add: fetchTraces_try_def)
  qed
  then show ?thesis by (rule exI)
qed

text \<open>
  Claim C8, three instances at the clock reading 1700000000000: the default interval of
  ten seconds against \<open>quiet_world\<close>, an interval of a millisecond and a half, and an
  interval of half a millisecond.
\<close>

theorem time_window_of_a_cycle_witness:
  "POLLING_INTERVAL example_config = Finite 10000
   \<and> \<bar>of_int 1700000000000 - 10000\<bar> \<le> (8640000000000000 :: rat)
   \<and> clock quiet_world [] = 1700000000000
   \<and> time_window example_config 1700000000000 = (Date 1699999990000, Date 1700000000000)
   \<and> date_less (Date 1699999990000) (Date 1700000000000)
   \<and> rat_of_int (1700000000000 - 1699999990000) = 10000
   \<and> fetchTraces_try example_config quiet_world []
       = (Normal, [GetTraceSummaries (Date 1699999990000) (Date 1700000000000) None])
   \<and> POLLING_INTERVAL (example_config\<lparr>POLLING_INTERVAL := Finite (3 / 2)\<rparr>) = Finite (3 / 2)
   \<and> \<bar>of_int 1700000000000 - 3 / 2\<bar> \<le> (8640000000000000 :: rat)
   \<and> time_window (example_config\<lparr>POLLING_INTERVAL := Finite (3 / 2)\<rparr>) 1700000000000
       = (Date 1699999999998, Date 1700000000000)
   \<and> date_less (Date 1699999999998) (Date 1700000000000)
   \<and> POLLING_INTERVAL (example_config\<lparr>POLLING_INTERVAL := Finite (1 / 2)\<rparr>) = Finite (1 / 2)
   \<and> \<bar>of_int 1700000000000 - 1 / 2\<bar> \<le> (8640000000000000 :: rat)
   \<and> time_window (example_config\<lparr>POLLING_INTERVAL := Finite (1 / 2)\<rparr>) 1700000000000
       = (Date 1699999999999, Date 1700000000000)
   \<and> date_less (Date 1699999999999) (Date 1700000000000)"
proof -
  let ?cfg = "example_config\<lparr>POLLING_INTERVAL := Finite (3 / 2)\<rparr>"
  let ?cfg' = "example_config\<lparr>POLLING_INTERVAL := Finite (1 / 2)\<rparr>"
  have a: "POLLING_INTERVAL example_config = Finite 10000"
    by (simp add: example_config_def)
  have b: "\<bar>of_int 1700000000000 - 10000\<bar> \<le> (8640000000000000 :: rat)"
    by simp
  have c: "clock quiet_world [] = 1700000000000"
    by (simp add: quiet_world_def)
  have d: "paginateGetTraceSummaries quiet_world [] (Date 1699999990000)
      (Date 1700000000000) (FILTER_EXPRESSION example_config) = Finished"
    by (simp add: quiet_world_def)
  have e: "FILTER_EXPRESSION example_config = None"
    by (simp add: example_config_def)
  have w: "time_window example_config 1700000000000 = (Date 1699999990000, Date 1700000000000)"
    by code_simp
  from time_window_of_a_cycle [OF a b] w obtain start where
    "start = 1699999990000"
    and "(rat_of_int (1700000000000 - start) = 10000) = (10000 \<in> (\<int> :: rat set))"
    and "(1 :: rat) \<le> 10000 \<longrightarrow> date_less (Date start) (Date 1700000000000)"
    and "\<forall>w s. clock w s = 1700000000000 \<longrightarrow>
           fetchTraces_try example_config w s =
             for_await (summaries_page_body example_config w)
               (paginateGetTraceSummaries w s (Date start) (Date 1700000000000)
                  (FILTER_EXPRESSION example_config))
               (s @ [GetTraceSummaries (Date start) (Date 1700000000000)
                       (FILTER_EXPRESSION example_config)])"
    by auto
  then have whole: "date_less (Date 1699999990000) (Date 1700000000000)"
    "rat_of_int (1700000000000 - 1699999990000) = 10000"
    "fetchTraces_try example_config quiet_world []
       = (Normal, [GetTraceSummaries (Date 1699999990000) (Date 1700000000000) None])"
    using c d e by simp_all
  have a': "POLLING_INTERVAL ?cfg = Finite (3 / 2)"
    by simp
  have b': "\<bar>of_int 1700000000000 - 3 / 2\<bar> \<le> (8640000000000000 :: rat)"
    by simp
  have w': "time_window ?cfg 1700000000000 = (Date 1699999999998, Date 1700000000000)"
    by code_simp
  from time_window_of_a_cycle [OF a' b'] w' obtain start' where
    "start' = 1699999999998"
    and "(1 :: rat) \<le> 3 / 2 \<longrightarrow> date_less (Date start') (Date 1700000000000)"
    by auto
  then have long: "date_less (Date 1699999999998) (Date 1700000000000)"
    by simp
  have a'': "POLLING_INTERVAL ?cfg' = Finite (1 / 2)"
    by simp
  have b'': "\<bar>of_int 1700000000000 - 1 / 2\<bar> \<le> (8640000000000000 :: rat)"
    by simp
  have w'': "time_window ?cfg' 1700000000000 = (Date 1699999999999, Date 1700000000000)"
    by code_simp
  from time_window_of_a_cycle [OF a'' b''] w'' obtain start'' where
    "start'' = 1699999999999"
    and "(0 :: rat) < 1 / 2 \<and> 2 ^ 40 < (1700000000000 :: int) \<and> (1700000000000 :: int) < 2 ^ 41 \<longrightarrow>
           date_less (Date start'') (Date 1700000000000) = ((1 :: rat) / 2 ^ 13 < 1 / 2)"
    by auto
  then have short: "date_less (Date 1699999999999) (Date 1700000000000)"
    by simp
  with a b c w whole a' b' w' long a'' b'' w'' show ?thesis
    by (intro conjI)
qed

text \<open>
  Claim C8 as first stated fails for positive intervals that are not whole milliseconds.
  \<open>POLLING_INTERVAL_SECONDS=0.0015\<close> gives an interval of 1.5 ms and a window of 2 ms;
  \<open>POLLING_INTERVAL_SECONDS=1.001\<close> gives an interval of 1000.9999999999999 ms and a
  window of 1001 ms; \<open>POLLING_INTERVAL_SECONDS=1e-7\<close> gives an interval of about
  0.0001 ms, which the subtraction from the clock's reading loses, and a window whose
  start is its end.
\<close>

theorem fractional_interval_counterexample:
  "env_POLLING_INTERVAL_SECONDS_times_1000 fractional_interval_env = Finite (3 / 2)
   \<and> startup fractional_interval_env
       = Inr (example_config\<lparr>POLLING_INTERVAL := Finite (3 / 2)\<rparr>)
   \<and> time_window (example_config\<lparr>POLLING_INTERVAL := Finite (3 / 2)\<rparr>) 1700000000000
       = (Date 1699999999998, Date 1700000000000)
   \<and> rat_of_int (1700000000000 - 1699999999998) \<noteq> 3 / 2
   \<and> env_POLLING_INTERVAL_SECONDS_times_1000 inexact_interval_env
       = Finite (8804889115230207 / 8796093022208)
   \<and> startup inexact_interval_env
       = Inr (example_config\<lparr>POLLING_INTERVAL := Finite (8804889115230207 / 8796093022208)\<rparr>)
   \<and> time_window
        (example_config\<lparr>POLLING_INTERVAL := Finite (8804889115230207 / 8796093022208)\<rparr>)
        1700000000000
       = (Date 1699999998999, Date 1700000000000)
   \<and> rat_of_int (1700000000000 - 1699999998999) \<noteq> 8804889115230207 / 8796093022208
   \<and> env_POLLING_INTERVAL_SECONDS_times_1000 tiny_interval_env
       = Finite (1844674407370955 / 18446744073709551616)
   \<and> startup tiny_interval_env
       = Inr (example_config
               \<lparr>POLLING_INTERVAL := Finite (1844674407370955 / 18446744073709551616)\<rparr>)
   \<and> time_window
        (example_config\<lparr>POLLING_INTERVAL := Finite (1844674407370955 / 18446744073709551616)\<rparr>)
        1700000000000
       = (Date 1700000000000, Date 1700000000000)
   \<and> \<not> date_less (Date 1700000000000) (Date 1700000000000)"
  by code_simp

subsection \<open>The default interval\<close>

text \<open>
  Claim C10. When \<open>Number(process.env.POLLING_INTERVAL_SECONDS) * 1000\<close> is \<open>NaN\<close>
  (the variable is unset or not numeric) or zero, the polling interval is 10000 ms; the
  module starts as it would with any other value, failing only for want of
  \<open>OTEL_COLLECTOR_URL\<close>; and the window of every cycle is the ten seconds before the
  clock's reading, its start before its end.
\<close>

theorem zero_or_NaN_interval_is_the_default:
  assumes "env_POLLING_INTERVAL_SECONDS_times_1000 env = NaN
     \<or> env_POLLING_INTERVAL_SECONDS_times_1000 env = Finite 0"
  shows "polling_interval env = Finite 10000
     \<and> (\<forall>url. env_OTEL_COLLECTOR_URL env = Some url \<and> url \<noteq> [] \<longrightarrow>
           startup env = Inr \<lparr>POLLING_INTERVAL = Finite 10000,
                              OTEL_COLLECTOR_URL = url,
                              FILTER_EXPRESSION = env_FILTER_EXPRESSION env\<rparr>)
     \<and> (\<forall>cfg now. startup env = Inr cfg \<and> \<bar>now - 10000\<bar> \<le> 8640000000000000 \<longrightarrow>
           time_window cfg now = (Date (now - 10000), Date now)
           \<and> date_less (Date (now - 10000)) (Date now))"
proof -
  from assms have p: "polling_interval env = Finite 10000"
    by (auto simp: polling_interval_def)
  have "POLLING_INTERVAL cfg = Finite 10000" if "startup env = Inr cfg" for cfg
    using that p by (auto simp: startup_def split: option.splits if_splits)
  then have "time_window cfg now = (Date (now - 10000), Date now)"
    if "startup env = Inr cfg" "\<bar>now - 10000\<bar> \<le> 8640000000000000" for cfg now
    using that time_window_whole [of cfg 10000 now] by simp
  with p show ?thesis by (auto simp: startup_def)
qed

text \<open>Claim C10, two instances: the variable unset, and set to \<open>"0"\<close>.\<close>

theorem zero_or_NaN_interval_is_the_default_witness:
  "env_POLLING_INTERVAL_SECONDS_times_1000 unset_interval_env = NaN
   \<and> env_POLLING_INTERVAL_SECONDS_times_1000 zero_interval_env = Finite 0
   \<and> polling_interval unset_interval_env = Finite 10000
   \<and> polling_interval zero_interval_env = Finite 10000
   \<and> startup zero_interval_env = Inr example_config
   \<and> \<bar>1700000000000 - 10000\<bar> \<le> (8640000000000000 :: int)
   \<and> time_window example_config 1700000000000 = (Date 1699999990000, Date 1700000000000)
   \<and> date_less (Date 1699999990000) (Date 1700000000000)"
proof -
  have a: "env_POLLING_INTERVAL_SECONDS_times_1000 unset_interval_env = NaN"
    and b: "env_POLLING_INTERVAL_SECONDS_times_1000 zero_interval_env = Finite 0"
    by (simp_all add: unset_interval_env_def zero_interval_env_def)
  have u: "env_OTEL_COLLECTOR_URL zero_interval_env = Some (js ''127.0.0.1'')"
    "js ''127.0.0.1'' \<noteq> []" "env_FILTER_EXPRESSION zero_interval_env = None"
    by (simp_all add: zero_interval_env_def example_env_def js_def)
  note unset = zero_or_NaN_interval_is_the_default [OF disjI1 [OF a]]
  note zero = zero_or_NaN_interval_is_the_default [OF disjI2 [OF b]]
  from zero u have s: "startup zero_interval_env = Inr example_config"
    by (simp add: example_config_def)
  have r: "\<bar>1700000000000 - 10000\<bar> \<le> (8640000000000000 :: int)"
    by simp
  from zero s r have "time_window example_config 1700000000000
      = (Date (1700000000000 - 10000), Date 1700000000000)
    \<and> date_less (Date (1700000000000 - 10000)) (Date 1700000000000)"
    by blast
  with unset zero a b s r show ?thesis by simp
qed

end
